theory Spec2Isabelle
  imports Main "HOL-Library.AList" "HOL-Library.Char_ord"
begin

section \<open>Configuration data (package config)\<close>

text \<open>
  The structs of the configuration package. Go's \<^verbatim>\<open>int\<close> and
  \<^verbatim>\<open>time.Duration\<close> are only compared with zero and with each other, so
  they are modelled as \<^typ>\<open>int\<close>. \<^verbatim>\<open>tunnel.SSHConfig\<close> belongs to
  the imported tunnel package; its fields are the ones the YAML document and the tests name.
\<close>

record AutoRestartConfig =
  Enabled :: bool
  Interval :: int

record TunnelConfig =
  Name :: string
  RemoteHost :: string
  RemotePort :: int
  LocalPort :: int
  AutoRestart :: AutoRestartConfig

record SSHConfig =
  User :: string
  Password :: string
  KeyFile :: string
  Host :: string
  KnownHostsFile :: string
  Port :: int

record Config =
  SSH :: SSHConfig
  TunnelConfigs :: "TunnelConfig list"

subsection \<open>Config.Validate\<close>

text \<open>
  Each constructor stands for one \<^verbatim>\<open>fmt.Errorf\<close> of \<^verbatim>\<open>Validate\<close>
  and carries exactly the arguments that call formats into its message:
  the wrapped SSH error, the index \<^verbatim>\<open>i\<close>, the tunnel name, or the local port.
\<close>

datatype validate_error =
    SSHInvalid string
  | NoTunnels
  | NameRequired nat
  | DuplicateName string
  | RemoteHostRequired nat
  | RemotePortInvalid nat
  | LocalPortInvalid nat
  | DuplicateLocalPort int
  | IntervalInvalid nat

text \<open>
  The loop over \<^verbatim>\<open>c.TunnelConfigs\<close>: \<open>i\<close> is the loop index,
  \<open>names\<close> and \<open>localPorts\<close> are the key sets of the two
  \<^verbatim>\<open>map[...]bool\<close> that only ever store \<^verbatim>\<open>true\<close>.
\<close>

fun validate_tunnels ::
  "nat \<Rightarrow> string set \<Rightarrow> int set \<Rightarrow> TunnelConfig list \<Rightarrow> validate_error option" where
  "validate_tunnels i names localPorts [] = None"
| "validate_tunnels i names localPorts (t # ts) =
     (if Name t = [] then Some (NameRequired i)
      else if Name t \<in> names then Some (DuplicateName (Name t))
      else if RemoteHost t = [] then Some (RemoteHostRequired i)
      else if RemotePort t \<le> 0 then Some (RemotePortInvalid i)
      else if LocalPort t \<le> 0 then Some (LocalPortInvalid i)
      else if LocalPort t \<in> localPorts then Some (DuplicateLocalPort (LocalPort t))
      else if Enabled (AutoRestart t) \<and> Interval (AutoRestart t) \<le> 0
        then Some (IntervalInvalid i)
      else validate_tunnels (Suc i) (insert (Name t) names)
             (insert (LocalPort t) localPorts) ts)"

text \<open>
  \<^verbatim>\<open>c.SSH.Validate()\<close> is a method of the imported tunnel package; it is the
  parameter \<open>ssh_Validate\<close> (\<open>None\<close> for \<^verbatim>\<open>nil\<close>).
\<close>

definition Validate :: "(SSHConfig \<Rightarrow> string option) \<Rightarrow> Config \<Rightarrow> validate_error option" where
  "Validate ssh_Validate c =
     (case ssh_Validate (SSH c) of
        Some e \<Rightarrow> Some (SSHInvalid e)
      | None \<Rightarrow>
          if length (TunnelConfigs c) = 0 then Some NoTunnels
          else validate_tunnels 0 {} {} (TunnelConfigs c))"

text \<open>
  The conditions of the specification on the tunnel entries, in its own words: every
  entry has a non-empty name, a non-empty remote host, positive ports and, when
  auto-restart is enabled, a positive interval; names and local ports are unique.
\<close>

definition entry_ok :: "TunnelConfig \<Rightarrow> bool" where
  "entry_ok t \<longleftrightarrow>
     Name t \<noteq> [] \<and> RemoteHost t \<noteq> [] \<and> 0 < RemotePort t \<and> 0 < LocalPort t \<and>
     (Enabled (AutoRestart t) \<longrightarrow> 0 < Interval (AutoRestart t))"

definition tunnel_entries_ok :: "TunnelConfig list \<Rightarrow> bool" where
  "tunnel_entries_ok ts \<longleftrightarrow>
     list_all entry_ok ts \<and> distinct (map Name ts) \<and> distinct (map LocalPort ts)"

text \<open>What a validation error says about the document it was raised for.\<close>

fun error_explained :: "(SSHConfig \<Rightarrow> string option) \<Rightarrow> Config \<Rightarrow> validate_error \<Rightarrow> bool" where
  "error_explained sv c (SSHInvalid e) = (sv (SSH c) = Some e)"
| "error_explained sv c NoTunnels = (TunnelConfigs c = [])"
| "error_explained sv c (NameRequired i) =
     (i < length (TunnelConfigs c) \<and> Name (TunnelConfigs c ! i) = [])"
| "error_explained sv c (DuplicateName n) =
     (1 < count_list (map Name (TunnelConfigs c)) n)"
| "error_explained sv c (RemoteHostRequired i) =
     (i < length (TunnelConfigs c) \<and> RemoteHost (TunnelConfigs c ! i) = [])"
| "error_explained sv c (RemotePortInvalid i) =
     (i < length (TunnelConfigs c) \<and> RemotePort (TunnelConfigs c ! i) \<le> 0)"
| "error_explained sv c (LocalPortInvalid i) =
     (i < length (TunnelConfigs c) \<and> LocalPort (TunnelConfigs c ! i) \<le> 0)"
| "error_explained sv c (DuplicateLocalPort p) =
     (1 < count_list (map LocalPort (TunnelConfigs c)) p)"
| "error_explained sv c (IntervalInvalid i) =
     (i < length (TunnelConfigs c) \<and> Enabled (AutoRestart (TunnelConfigs c ! i)) \<and>
      Interval (AutoRestart (TunnelConfigs c ! i)) \<le> 0)"

section \<open>The tunnel package (imported, not part of this repository)\<close>

text \<open>
  \<^verbatim>\<open>tunnel.Tunnel\<close> comes from the imported package
  \<^verbatim>\<open>github.com/pperesbr/gokit/pkg/tunnel\<close>. The manager only calls its
  constructor and five methods, so the package is a parameter of the model: a record of
  six functions over an arbitrary tunnel state \<open>'t\<close>. A method that mutates the
  tunnel behind its pointer returns the new tunnel state; a method that returns
  \<^verbatim>\<open>error\<close> returns \<open>Some msg\<close> for a non-nil error. What a call does is
  a function of the state of the tunnel it is called on; every theorem that is not an
  evaluated example holds for all such packages, so in particular for one whose
  \<^verbatim>\<open>Stop\<close> or \<^verbatim>\<open>Start\<close> fails. The four status values are the
  ones the specification lists; the manager compares a status with
  \<^verbatim>\<open>StatusRunning\<close> and \<^verbatim>\<open>StatusError\<close> only.
\<close>

datatype Status = StatusStopped | StatusStarting | StatusRunning | StatusError

record 't tunnel_pkg =
  NewTunnel :: "SSHConfig \<Rightarrow> string \<Rightarrow> int \<Rightarrow> int \<Rightarrow> 't"
  tunStatus :: "'t \<Rightarrow> Status"
  tunLastError :: "'t \<Rightarrow> string option"
  tunStart :: "'t \<Rightarrow> 't \<times> string option"
  tunStop :: "'t \<Rightarrow> 't \<times> string option"
  tunRestart :: "'t \<Rightarrow> 't \<times> string option"

section \<open>The manager (package manager)\<close>

text \<open>
  The three Go maps are association lists read with \<^const>\<open>map_of\<close> and written with
  \<^const>\<open>AList.update\<close> and \<^const>\<open>AList.delete\<close>; the order of a list stands for
  the unspecified iteration order of the Go map. An entry of \<open>tunnelDones\<close> stands for
  an open \<^verbatim>\<open>chan struct{}\<close> together with the supervisor goroutine that listens
  on it; its value is the interval that goroutine was launched with. Every channel that
  leaves the map is closed at that moment, which ends its goroutine. \<open>doneClosed\<close>
  tells whether the channel \<^verbatim>\<open>m.done\<close> has been closed.
\<close>

record 't Manager =
  sshConfig :: SSHConfig
  tunnels :: "(string \<times> 't) list"
  configs :: "(string \<times> TunnelConfig) list"
  tunnelDones :: "(string \<times> int) list"
  doneClosed :: bool

text \<open>
  The errors the manager builds with \<^verbatim>\<open>fmt.Errorf\<close>:
  "tunnel %s already exists", "tunnel %s not found", "failed to start tunnel %s: %w",
  "failed to stop tunnel %s: %w", "failed to restart tunnel %s: %w" and
  "errors closing manager: %v".
\<close>

datatype error =
    NameInUse string
  | NotFound string
  | StartFailed string string
  | StopFailed string string
  | RestartFailed string string
  | CloseErrors "(string \<times> string) list"

text \<open>A call either returns or panics (Go's run-time panic on closing a closed channel).\<close>

datatype 'a outcome = Returned 'a | Panic string

definition NewManager :: "SSHConfig \<Rightarrow> 't Manager" where
  "NewManager c =
     \<lparr>sshConfig = c, tunnels = [], configs = [], tunnelDones = [], doneClosed = False\<rparr>"

definition Add :: "'t tunnel_pkg \<Rightarrow> 't Manager \<Rightarrow> TunnelConfig \<Rightarrow> 't Manager \<times> error option" where
  "Add lib m cfg =
     (case map_of (tunnels m) (Name cfg) of
        Some _ \<Rightarrow> (m, Some (NameInUse (Name cfg)))
      | None \<Rightarrow>
          (let tun = NewTunnel lib (sshConfig m) (RemoteHost cfg) (RemotePort cfg) (LocalPort cfg)
           in (m\<lparr>tunnels := AList.update (Name cfg) tun (tunnels m),
                  configs := AList.update (Name cfg) cfg (configs m)\<rparr>, None)))"

definition startAutoRestartForTunnel :: "'t Manager \<Rightarrow> string \<Rightarrow> int \<Rightarrow> 't Manager" where
  "startAutoRestartForTunnel m name interval =
     m\<lparr>tunnelDones := AList.update name interval (tunnelDones m)\<rparr>"

definition stopAutoRestartForTunnel :: "'t Manager \<Rightarrow> string \<Rightarrow> 't Manager" where
  "stopAutoRestartForTunnel m name =
     (case map_of (tunnelDones m) name of
        Some _ \<Rightarrow> m\<lparr>tunnelDones := AList.delete name (tunnelDones m)\<rparr>
      | None \<Rightarrow> m)"

definition Remove :: "'t tunnel_pkg \<Rightarrow> 't Manager \<Rightarrow> string \<Rightarrow> 't Manager \<times> error option" where
  "Remove lib m name =
     (let m1 = stopAutoRestartForTunnel m name in
      case map_of (tunnels m1) name of
        None \<Rightarrow> (m1, Some (NotFound name))
      | Some tun \<Rightarrow>
          if tunStatus lib tun = StatusRunning then
            (case tunStop lib tun of
               (tun', Some err) \<Rightarrow>
                 (m1\<lparr>tunnels := AList.update name tun' (tunnels m1)\<rparr>,
                  Some (StopFailed name err))
             | (tun', None) \<Rightarrow>
                 (m1\<lparr>tunnels := AList.delete name (tunnels m1),
                     configs := AList.delete name (configs m1)\<rparr>, None))
          else
            (m1\<lparr>tunnels := AList.delete name (tunnels m1),
                configs := AList.delete name (configs m1)\<rparr>, None))"

text \<open>
  \<^verbatim>\<open>cfg, _ := m.configs[name]\<close> yields the zero \<^verbatim>\<open>TunnelConfig\<close> for a
  missing key, whose \<^verbatim>\<open>AutoRestart.Enabled\<close> is false.
\<close>

definition Start :: "'t tunnel_pkg \<Rightarrow> 't Manager \<Rightarrow> string \<Rightarrow> 't Manager \<times> error option" where
  "Start lib m name =
     (case map_of (tunnels m) name of
        None \<Rightarrow> (m, Some (NotFound name))
      | Some tun \<Rightarrow>
          (case tunStart lib tun of
             (tun', Some err) \<Rightarrow>
               (m\<lparr>tunnels := AList.update name tun' (tunnels m)\<rparr>, Some (StartFailed name err))
           | (tun', None) \<Rightarrow>
               (let m1 = m\<lparr>tunnels := AList.update name tun' (tunnels m)\<rparr> in
                case map_of (configs m) name of
                  Some cfg \<Rightarrow>
                    if Enabled (AutoRestart cfg)
                    then (startAutoRestartForTunnel m1 name (Interval (AutoRestart cfg)), None)
                    else (m1, None)
                | None \<Rightarrow> (m1, None))))"

definition Stop :: "'t tunnel_pkg \<Rightarrow> 't Manager \<Rightarrow> string \<Rightarrow> 't Manager \<times> error option" where
  "Stop lib m name =
     (let m1 = stopAutoRestartForTunnel m name in
      case map_of (tunnels m1) name of
        None \<Rightarrow> (m1, Some (NotFound name))
      | Some tun \<Rightarrow>
          (case tunStop lib tun of
             (tun', Some err) \<Rightarrow>
               (m1\<lparr>tunnels := AList.update name tun' (tunnels m1)\<rparr>, Some (StopFailed name err))
           | (tun', None) \<Rightarrow>
               (m1\<lparr>tunnels := AList.update name tun' (tunnels m1)\<rparr>, None)))"

definition Restart :: "'t tunnel_pkg \<Rightarrow> 't Manager \<Rightarrow> string \<Rightarrow> 't Manager \<times> error option" where
  "Restart lib m name =
     (case map_of (tunnels m) name of
        None \<Rightarrow> (m, Some (NotFound name))
      | Some tun \<Rightarrow>
          (case tunRestart lib tun of
             (tun', Some err) \<Rightarrow>
               (m\<lparr>tunnels := AList.update name tun' (tunnels m)\<rparr>,
                Some (RestartFailed name err))
           | (tun', None) \<Rightarrow>
               (m\<lparr>tunnels := AList.update name tun' (tunnels m)\<rparr>, None)))"

definition List :: "'t Manager \<Rightarrow> string list" where
  "List m = map fst (tunnels m)"

fun StartAll_loop ::
  "'t tunnel_pkg \<Rightarrow> 't Manager \<Rightarrow> (string \<times> error) list \<Rightarrow> string list
     \<Rightarrow> 't Manager \<times> (string \<times> error) list" where
  "StartAll_loop lib m errors [] = (m, errors)"
| "StartAll_loop lib m errors (name # names) =
     (case Start lib m name of
        (m', Some err) \<Rightarrow> StartAll_loop lib m' (AList.update name err errors) names
      | (m', None) \<Rightarrow> StartAll_loop lib m' errors names)"

definition StartAll :: "'t tunnel_pkg \<Rightarrow> 't Manager \<Rightarrow> 't Manager \<times> (string \<times> error) list" where
  "StartAll lib m = StartAll_loop lib m [] (List m)"

text \<open>
  \<^verbatim>\<open>StopAll\<close>: the first loop closes and deletes every entry of
  \<^verbatim>\<open>tunnelDones\<close>; the second calls \<^verbatim>\<open>Stop\<close> on every tunnel of the
  map, in place, and collects the errors by name.
\<close>

definition StopAll :: "'t tunnel_pkg \<Rightarrow> 't Manager \<Rightarrow> 't Manager \<times> (string \<times> string) list" where
  "StopAll lib m =
     (m\<lparr>tunnelDones := [],
        tunnels := map (\<lambda>(name, tun). (name, fst (tunStop lib tun))) (tunnels m)\<rparr>,
      List.map_filter
        (\<lambda>(name, tun). case snd (tunStop lib tun) of Some err \<Rightarrow> Some (name, err) | None \<Rightarrow> None)
        (tunnels m))"

definition Close :: "'t tunnel_pkg \<Rightarrow> 't Manager \<Rightarrow> ('t Manager \<times> error option) outcome" where
  "Close lib m =
     (if doneClosed m then Panic ''close of closed channel''
      else
        (case StopAll lib (m\<lparr>doneClosed := True\<rparr>) of
           (m', errors) \<Rightarrow>
             if length errors > 0 then Returned (m', Some (CloseErrors errors))
             else Returned (m', None)))"

definition tunnelConfigChanged :: "TunnelConfig \<Rightarrow> TunnelConfig \<Rightarrow> bool" where
  "tunnelConfigChanged old new =
     (if RemoteHost old \<noteq> RemoteHost new then True
      else if RemotePort old \<noteq> RemotePort new then True
      else if LocalPort old \<noteq> LocalPort new then True
      else if Enabled (AutoRestart old) \<noteq> Enabled (AutoRestart new) then True
      else if Interval (AutoRestart old) \<noteq> Interval (AutoRestart new) then True
      else False)"

subsection \<open>Reconcile\<close>

text \<open>
  The \<^verbatim>\<open>log.Printf\<close> calls of \<^verbatim>\<open>Reconcile\<close>, one constructor per
  format string, so that what a call did is visible in its result.
\<close>

datatype log_entry =
    LogRemoving string
  | LogRemoveFailed string error
  | LogAdding string
  | LogAddFailed string error
  | LogStartFailed string error
  | LogRestarting string
  | LogRestartFailed string error

text \<open>
  \<^verbatim>\<open>newConfigs\<close>: a later entry of \<^verbatim>\<open>TunnelConfigs\<close> with the same name
  overwrites an earlier one.
\<close>

definition newConfigs_of :: "TunnelConfig list \<Rightarrow> (string \<times> TunnelConfig) list" where
  "newConfigs_of cfgs = foldl (\<lambda>acc cfg. AList.update (Name cfg) cfg acc) [] cfgs"

text \<open>First loop: every current name that is not a new name is removed.\<close>

fun reconcile_remove ::
  "'t tunnel_pkg \<Rightarrow> string list \<Rightarrow> 't Manager \<times> log_entry list \<Rightarrow> string list
     \<Rightarrow> 't Manager \<times> log_entry list" where
  "reconcile_remove lib newNames (m, lg) [] = (m, lg)"
| "reconcile_remove lib newNames (m, lg) (name # rest) =
     (if name \<notin> set newNames then
        (case Remove lib m name of
           (m', Some err) \<Rightarrow>
             reconcile_remove lib newNames
               (m', lg @ [LogRemoving name, LogRemoveFailed name err]) rest
         | (m', None) \<Rightarrow>
             reconcile_remove lib newNames (m', lg @ [LogRemoving name]) rest)
      else reconcile_remove lib newNames (m, lg) rest)"

text \<open>Second loop: every new name that is not a current name is added, then started.\<close>

fun reconcile_add ::
  "'t tunnel_pkg \<Rightarrow> string list \<Rightarrow> 't Manager \<times> log_entry list
     \<Rightarrow> (string \<times> TunnelConfig) list \<Rightarrow> 't Manager \<times> log_entry list" where
  "reconcile_add lib currentNames (m, lg) [] = (m, lg)"
| "reconcile_add lib currentNames (m, lg) ((name, cfg) # rest) =
     (if name \<notin> set currentNames then
        (case Add lib m cfg of
           (m1, Some err) \<Rightarrow>
             reconcile_add lib currentNames
               (m1, lg @ [LogAdding name, LogAddFailed name err]) rest
         | (m1, None) \<Rightarrow>
             (case Start lib m1 name of
                (m2, Some err) \<Rightarrow>
                  reconcile_add lib currentNames
                    (m2, lg @ [LogAdding name, LogStartFailed name err]) rest
              | (m2, None) \<Rightarrow>
                  reconcile_add lib currentNames (m2, lg @ [LogAdding name]) rest))
      else reconcile_add lib currentNames (m, lg) rest)"

text \<open>
  Third loop: a name that is both current and new gets the new configuration stored and
  its tunnel restarted when \<^verbatim>\<open>tunnelConfigChanged\<close> says so.
\<close>

fun reconcile_update ::
  "'t tunnel_pkg \<Rightarrow> string list \<Rightarrow> 't Manager \<times> log_entry list
     \<Rightarrow> (string \<times> TunnelConfig) list \<Rightarrow> 't Manager \<times> log_entry list" where
  "reconcile_update lib currentNames (m, lg) [] = (m, lg)"
| "reconcile_update lib currentNames (m, lg) ((name, newCfg) # rest) =
     (if name \<in> set currentNames then
        (case map_of (configs m) name of
           Some oldCfg \<Rightarrow>
             if tunnelConfigChanged oldCfg newCfg then
               (case Restart lib (m\<lparr>configs := AList.update name newCfg (configs m)\<rparr>) name of
                  (m2, Some err) \<Rightarrow>
                    reconcile_update lib currentNames
                      (m2, lg @ [LogRestarting name, LogRestartFailed name err]) rest
                | (m2, None) \<Rightarrow>
                    reconcile_update lib currentNames (m2, lg @ [LogRestarting name]) rest)
             else reconcile_update lib currentNames (m, lg) rest
         | None \<Rightarrow> reconcile_update lib currentNames (m, lg) rest)
      else reconcile_update lib currentNames (m, lg) rest)"

text \<open>
  \<^verbatim>\<open>Reconcile\<close> always returns \<^verbatim>\<open>nil\<close>; the model returns the manager
  and the lines logged. \<open>currentNames\<close> is the key list of the map built from
  \<^verbatim>\<open>m.List()\<close>, \<open>newNames\<close> the keys set from the new tunnel list.
\<close>

definition Reconcile :: "'t tunnel_pkg \<Rightarrow> 't Manager \<Rightarrow> Config \<Rightarrow> 't Manager \<times> log_entry list" where
  "Reconcile lib m newConfig =
     (let m0 = m\<lparr>sshConfig := SSH newConfig\<rparr>;
          currentNames = remdups (List m0);
          newNames = map Name (TunnelConfigs newConfig);
          newConfigs = newConfigs_of (TunnelConfigs newConfig);
          r1 = reconcile_remove lib newNames (m0, []) currentNames;
          r2 = reconcile_add lib currentNames r1 newConfigs
      in reconcile_update lib currentNames r2 newConfigs)"

section \<open>Loading the configuration and the watcher's reload\<close>

text \<open>
  \<^verbatim>\<open>config.Load\<close> calls \<^verbatim>\<open>os.ReadFile\<close>, \<^verbatim>\<open>os.ExpandEnv\<close>,
  \<^verbatim>\<open>yaml.Unmarshal\<close> and \<^verbatim>\<open>SSHConfig.Validate\<close>, none of which belongs
  to this repository: they are the fields of \<open>deps\<close>. \<open>ExpandEnv\<close> has no error
  result in Go, so it is a function from text to text.
\<close>

record load_deps =
  ReadFile :: "string \<Rightarrow> string + string"
  ExpandEnv :: "string \<Rightarrow> string"
  yaml_Unmarshal :: "string \<Rightarrow> string + Config"
  ssh_Validate :: "SSHConfig \<Rightarrow> string option"

datatype load_error =
    ReadFailed string
  | ParseFailed string
  | InvalidConfig validate_error

definition Load :: "load_deps \<Rightarrow> string \<Rightarrow> load_error + Config" where
  "Load deps path =
     (case ReadFile deps path of
        Inl err \<Rightarrow> Inl (ReadFailed err)
      | Inr data \<Rightarrow>
          (case yaml_Unmarshal deps (ExpandEnv deps data) of
             Inl err \<Rightarrow> Inl (ParseFailed err)
           | Inr cfg \<Rightarrow>
               (case Validate (ssh_Validate deps) cfg of
                  Some err \<Rightarrow> Inl (InvalidConfig err)
                | None \<Rightarrow> Inr cfg)))"

text \<open>
  \<^verbatim>\<open>Watcher.reload\<close>: the watcher's own log line for a failed load is the
  second component; on success the lines are those of \<^verbatim>\<open>Reconcile\<close>.
\<close>

datatype watcher_log = LogInvalidConfig load_error | LogReconcile "log_entry list"

definition reload ::
  "load_deps \<Rightarrow> 't tunnel_pkg \<Rightarrow> string \<Rightarrow> 't Manager \<Rightarrow> 't Manager \<times> watcher_log" where
  "reload deps lib configPath m =
     (case Load deps configPath of
        Inl err \<Rightarrow> (m, LogInvalidConfig err)
      | Inr newConfig \<Rightarrow>
          (case Reconcile lib m newConfig of (m', lg) \<Rightarrow> (m', LogReconcile lg)))"

section \<open>Environment expansion (Go standard library, package os)\<close>

text \<open>
  \<^verbatim>\<open>Load\<close> calls \<^verbatim>\<open>os.ExpandEnv\<close>, which is part of the Go standard
  library and not of this repository. To say what \<^verbatim>\<open>Load\<close> does with a
  reference to an unset variable, the functions of \<^verbatim>\<open>os/env.go\<close> are
  transcribed here: \<^verbatim>\<open>isShellSpecialVar\<close>, \<^verbatim>\<open>isAlphaNum\<close>,
  \<^verbatim>\<open>getShellName\<close>, \<^verbatim>\<open>Expand\<close>, \<^verbatim>\<open>ExpandEnv\<close> and the
  behaviour of \<^verbatim>\<open>Getenv\<close> (the empty string for a variable that is not
  present). A Go string is a sequence of bytes, as a \<^typ>\<open>string\<close> is here. The
  process environment is a map from names to values.
\<close>

definition isShellSpecialVar :: "char \<Rightarrow> bool" where
  "isShellSpecialVar c \<longleftrightarrow> c \<in> set ''*#$@!?-0123456789''"

definition isAlphaNum :: "char \<Rightarrow> bool" where
  "isAlphaNum c \<longleftrightarrow>
     c = CHR ''_'' \<or> (CHR ''0'' \<le> c \<and> c \<le> CHR ''9'') \<or>
     (CHR ''a'' \<le> c \<and> c \<le> CHR ''z'') \<or> (CHR ''A'' \<le> c \<and> c \<le> CHR ''Z'')"

text \<open>
  \<^verbatim>\<open>getShellName(s)\<close> returns the name that begins \<open>s\<close> and the number of
  bytes it consumes. \<^verbatim>\<open>Expand\<close> only calls it on a non-empty string (Go would
  panic on \<^verbatim>\<open>s[0]\<close> otherwise), so the first equation is never used. In the
  brace case the \<^verbatim>\<open>for\<close> loop finds the first closing brace;
  \<open>takeWhile\<close> yields the bytes before it.
\<close>

fun getShellName :: "string \<Rightarrow> string \<times> nat" where
  "getShellName [] = ([], 0)"
| "getShellName (c # rest) =
     (if c = CHR ''{'' then
        (if length (c # rest) > 2 \<and> isShellSpecialVar (rest ! 0) \<and> rest ! 1 = CHR ''}''
         then ([rest ! 0], 3)
         else
           (let name = takeWhile (\<lambda>x. x \<noteq> CHR ''}'') rest in
            if length name = length rest then ([], 1)
            else if name = [] then ([], 2)
            else (name, length name + 2)))
      else if isShellSpecialVar c then ([c], 1)
      else (let name = takeWhile isAlphaNum (c # rest) in (name, length name)))"

text \<open>
  \<^verbatim>\<open>Expand(s, mapping)\<close>: the loop over \<open>j\<close> copies every byte that is not a
  dollar sign followed by at least one more byte; at such a dollar sign it appends
  nothing (bad syntax), the dollar sign itself (no name follows) or
  \<^verbatim>\<open>mapping(name)\<close>, and continues after the \<open>w\<close> bytes consumed.
\<close>

fun Expand :: "string \<Rightarrow> (string \<Rightarrow> string) \<Rightarrow> string" where
  "Expand [] mapping = []"
| "Expand (c # rest) mapping =
     (if c = CHR ''$'' \<and> rest \<noteq> [] then
        (case getShellName rest of
           (name, w) \<Rightarrow>
             (if name = [] \<and> w > 0 then []
              else if name = [] then [c]
              else mapping name) @ Expand (drop w rest) mapping)
      else c # Expand rest mapping)"

definition Getenv :: "(string \<Rightarrow> string option) \<Rightarrow> string \<Rightarrow> string" where
  "Getenv environ key = (case environ key of Some v \<Rightarrow> v | None \<Rightarrow> [])"

definition os_ExpandEnv :: "(string \<Rightarrow> string option) \<Rightarrow> string \<Rightarrow> string" where
  "os_ExpandEnv environ s = Expand s (Getenv environ)"

text \<open>
  A reference to the variable \<open>name\<close>, followed in the text by \<open>post\<close>: either
  \<^verbatim>\<open>${name}\<close>, or \<^verbatim>\<open>$name\<close> where the name is made of letters, digits and
  underscores, does not start with a digit, and is not continued by \<open>post\<close>.
\<close>

definition is_reference :: "string \<Rightarrow> string \<Rightarrow> string \<Rightarrow> bool" where
  "is_reference ref name post \<longleftrightarrow>
     name \<noteq> [] \<and>
     ((ref = ''${'' @ name @ ''}'' \<and> CHR ''}'' \<notin> set name) \<or>
      (ref = CHR ''$'' # name \<and> list_all isAlphaNum name \<and> \<not> isShellSpecialVar (hd name) \<and>
       (case post of [] \<Rightarrow> True | c # cs \<Rightarrow> \<not> isAlphaNum c)))"

text \<open>
  A text after which the scanner of \<^verbatim>\<open>Expand\<close> starts afresh: it does not end
  with a dollar sign, and every \<^verbatim>\<open>${\<close> in scanning position has its closing
  brace inside the text. A reference that follows such a text is read as a reference;
  after \<^verbatim>\<open>$\<close> or an open \<^verbatim>\<open>${\<close> it would be part of another name.
\<close>

fun closed_text :: "string \<Rightarrow> bool" where
  "closed_text [] = True"
| "closed_text (c # rest) =
     (if c = CHR ''$'' then
        rest \<noteq> [] \<and> (hd rest = CHR ''{'' \<longrightarrow> CHR ''}'' \<in> set (tl rest)) \<and>
        closed_text (drop (snd (getShellName rest)) rest)
      else closed_text rest)"

section \<open>Notions used to state the properties\<close>

text \<open>
  The key-set invariant of the manager: every supervisor entry belongs to a registered
  tunnel, and the tunnels and the stored configurations have the same names.
\<close>

definition consistent :: "'t Manager \<Rightarrow> bool" where
  "consistent m \<longleftrightarrow>
     fst ` set (tunnelDones m) \<subseteq> fst ` set (tunnels m) \<and>
     fst ` set (tunnels m) = fst ` set (configs m)"

text \<open>
  \<^verbatim>\<open>Remove\<close> fails on a registered tunnel exactly when the tunnel is running and
  its \<^verbatim>\<open>Stop\<close> returns an error.
\<close>

definition stuck :: "'t tunnel_pkg \<Rightarrow> 't Manager \<Rightarrow> string \<Rightarrow> bool" where
  "stuck lib m name =
     (case map_of (tunnels m) name of
        None \<Rightarrow> False
      | Some tun \<Rightarrow> tunStatus lib tun = StatusRunning \<and> snd (tunStop lib tun) \<noteq> None)"

text \<open>
  The names \<^verbatim>\<open>Reconcile\<close> cannot remove: registered, absent from the new
  configuration, and with a tunnel whose removal fails.
\<close>

definition leftover :: "'t tunnel_pkg \<Rightarrow> 't Manager \<Rightarrow> Config \<Rightarrow> string list" where
  "leftover lib m newConfig =
     filter (\<lambda>n. n \<notin> set (map Name (TunnelConfigs newConfig)) \<and> stuck lib m n) (List m)"

text \<open>
  The entry of a configuration for a name: the last tunnel entry with that name (the
  only one when names are unique, as validation demands).
\<close>

definition desired :: "Config \<Rightarrow> string \<Rightarrow> TunnelConfig option" where
  "desired newConfig name = find (\<lambda>c. Name c = name) (rev (TunnelConfigs newConfig))"

text \<open>Two tunnel configurations agree on the five fields besides the name.\<close>

definition same_settings :: "TunnelConfig \<Rightarrow> TunnelConfig \<Rightarrow> bool" where
  "same_settings a b \<longleftrightarrow>
     RemoteHost a = RemoteHost b \<and> RemotePort a = RemotePort b \<and> LocalPort a = LocalPort b \<and>
     Enabled (AutoRestart a) = Enabled (AutoRestart b) \<and>
     Interval (AutoRestart a) = Interval (AutoRestart b)"

text \<open>
  Sequences of calls on one manager. A panic ends the run; the manager is then in the
  state the panicking call found, since \<^verbatim>\<open>close(m.done)\<close> is the first
  statement of \<^verbatim>\<open>Close\<close>.
\<close>

datatype op =
    OpAdd TunnelConfig
  | OpRemove string
  | OpStart string
  | OpStop string
  | OpRestart string
  | OpStartAll
  | OpStopAll
  | OpReconcile Config
  | OpClose

fun exec :: "'t tunnel_pkg \<Rightarrow> 't Manager \<Rightarrow> op \<Rightarrow> 't Manager outcome" where
  "exec lib m (OpAdd cfg) = Returned (fst (Add lib m cfg))"
| "exec lib m (OpRemove name) = Returned (fst (Remove lib m name))"
| "exec lib m (OpStart name) = Returned (fst (Start lib m name))"
| "exec lib m (OpStop name) = Returned (fst (Stop lib m name))"
| "exec lib m (OpRestart name) = Returned (fst (Restart lib m name))"
| "exec lib m OpStartAll = Returned (fst (StartAll lib m))"
| "exec lib m OpStopAll = Returned (fst (StopAll lib m))"
| "exec lib m (OpReconcile newConfig) = Returned (fst (Reconcile lib m newConfig))"
| "exec lib m OpClose =
     (case Close lib m of Returned r \<Rightarrow> Returned (fst r) | Panic msg \<Rightarrow> Panic msg)"

fun run :: "'t tunnel_pkg \<Rightarrow> 't Manager \<Rightarrow> op list \<Rightarrow> 't Manager" where
  "run lib m [] = m"
| "run lib m (x # xs) =
     (case exec lib m x of Returned m' \<Rightarrow> run lib m' xs | Panic msg \<Rightarrow> m)"

section \<open>Concrete inputs for the evaluated examples\<close>

text \<open>
  A validator for the SSH section that follows the rule the specification gives for it
  (user and host non-empty, a password or a key file). It is only used to evaluate
  examples; every general theorem holds for an arbitrary validator.
\<close>

definition ssh_Validate_model :: "SSHConfig \<Rightarrow> string option" where
  "ssh_Validate_model s =
     (if User s = [] then Some ''user is required''
      else if Host s = [] then Some ''host is required''
      else if Password s = [] \<and> KeyFile s = [] then Some ''password or keyFile is required''
      else None)"

definition ex_ssh :: SSHConfig where
  "ex_ssh = \<lparr>User = ''testuser'', Password = ''testpass'', KeyFile = [],
              Host = ''bastion.com'', KnownHostsFile = [], Port = 22\<rparr>"

definition ex_tunnel :: "string \<Rightarrow> int \<Rightarrow> int \<Rightarrow> TunnelConfig" where
  "ex_tunnel n rport lport =
     \<lparr>Name = n, RemoteHost = ''127.0.0.1'', RemotePort = rport, LocalPort = lport,
      AutoRestart = \<lparr>Enabled = False, Interval = 0\<rparr>\<rparr>"

definition ex_config :: "TunnelConfig list \<Rightarrow> Config" where
  "ex_config ts = \<lparr>SSH = ex_ssh, TunnelConfigs = ts\<rparr>"

text \<open>
  A small stand-in for the tunnel package, used to evaluate examples: a tunnel is its
  status and the number of \<^verbatim>\<open>Stop\<close> calls that will still fail. With
  \<open>k = 0\<close> no call to \<^verbatim>\<open>Stop\<close> fails; with \<open>k = Suc 0\<close> the first
  \<^verbatim>\<open>Stop\<close> of a tunnel returns an error and the next one succeeds.
\<close>

record sim_tunnel =
  sim_status :: Status
  sim_stop_failures :: nat

definition sim_Start :: "sim_tunnel \<Rightarrow> sim_tunnel \<times> string option" where
  "sim_Start t =
     (if sim_status t = StatusRunning then (t, Some ''tunnel is already running'')
      else (t\<lparr>sim_status := StatusRunning\<rparr>, None))"

definition sim_Stop :: "sim_tunnel \<Rightarrow> sim_tunnel \<times> string option" where
  "sim_Stop t =
     (case sim_stop_failures t of
        0 \<Rightarrow> (t\<lparr>sim_status := StatusStopped\<rparr>, None)
      | Suc n \<Rightarrow> (t\<lparr>sim_stop_failures := n\<rparr>, Some ''stop failed''))"

definition sim_Restart :: "sim_tunnel \<Rightarrow> sim_tunnel \<times> string option" where
  "sim_Restart t =
     (case sim_Stop t of
        (t', Some err) \<Rightarrow> (t', Some err)
      | (t', None) \<Rightarrow> sim_Start t')"

definition sim_New :: "nat \<Rightarrow> SSHConfig \<Rightarrow> string \<Rightarrow> int \<Rightarrow> int \<Rightarrow> sim_tunnel" where
  "sim_New k ssh host rport lport = \<lparr>sim_status = StatusStopped, sim_stop_failures = k\<rparr>"

definition sim_LastError :: "sim_tunnel \<Rightarrow> string option" where
  "sim_LastError t = None"

definition sim_pkg :: "nat \<Rightarrow> sim_tunnel tunnel_pkg" where
  "sim_pkg k =
     \<lparr>NewTunnel = sim_New k, tunStatus = sim_status, tunLastError = sim_LastError,
      tunStart = sim_Start, tunStop = sim_Stop, tunRestart = sim_Restart\<rparr>"

text \<open>A manager with one registered, started tunnel \<open>a\<close>.\<close>

definition ex_running :: "nat \<Rightarrow> sim_tunnel Manager" where
  "ex_running k =
     run (sim_pkg k) (NewManager ex_ssh) [OpAdd (ex_tunnel ''a'' 1521 1521), OpStart ''a'']"

text \<open>
  A manager whose tunnel \<open>a\<close> is started with auto-restart enabled, so that a
  supervisor entry exists for it.
\<close>

definition ex_auto_tunnel :: "string \<Rightarrow> TunnelConfig" where
  "ex_auto_tunnel n =
     \<lparr>Name = n, RemoteHost = ''127.0.0.1'', RemotePort = 1521, LocalPort = 1521,
      AutoRestart = \<lparr>Enabled = True, Interval = 100\<rparr>\<rparr>"

definition ex_supervised :: "nat \<Rightarrow> sim_tunnel Manager" where
  "ex_supervised k =
     run (sim_pkg k) (NewManager ex_ssh) [OpAdd (ex_auto_tunnel ''a''), OpStart ''a'']"

text \<open>
  Stand-ins for the file system and the YAML decoder, used to evaluate the watcher on
  examples: one file, and a decoder that knows two documents.
\<close>

definition ex_ReadFile :: "string \<Rightarrow> string \<Rightarrow> string + string" where
  "ex_ReadFile content path =
     (if path = ''config.yaml'' then Inr content else Inl ''no such file or directory'')"

definition ex_Unmarshal :: "string \<Rightarrow> string + Config" where
  "ex_Unmarshal text =
     (if text = ''tunnels: []'' then Inr (ex_config [])
      else if text = ''tunnels: [b]'' then Inr (ex_config [ex_tunnel ''b'' 1521 1522])
      else Inl ''yaml: unmarshal error'')"

definition ex_identity :: "string \<Rightarrow> string" where
  "ex_identity text = text"

definition ex_deps :: "string \<Rightarrow> load_deps" where
  "ex_deps content =
     \<lparr>ReadFile = ex_ReadFile content, ExpandEnv = ex_identity,
      yaml_Unmarshal = ex_Unmarshal, ssh_Validate = ssh_Validate_model\<rparr>"

text \<open>
  An environment with one variable, a decoder that knows the document whose password is
  empty, and the dependencies of \<^verbatim>\<open>Load\<close> with the expansion of the Go
  library.
\<close>

definition ex_environ :: "string \<Rightarrow> string option" where
  "ex_environ key = (if key = ''HOME'' then Some ''/root'' else None)"

definition ex_Unmarshal_password :: "string \<Rightarrow> string + Config" where
  "ex_Unmarshal_password text =
     (if text = ''password: ''
      then Inr \<lparr>SSH = ex_ssh\<lparr>Password := []\<rparr>, TunnelConfigs = [ex_tunnel ''b'' 1521 1522]\<rparr>
      else Inl ''yaml: unmarshal error'')"

definition ex_env_deps :: "string \<Rightarrow> load_deps" where
  "ex_env_deps content =
     \<lparr>ReadFile = ex_ReadFile content, ExpandEnv = os_ExpandEnv ex_environ,
      yaml_Unmarshal = ex_Unmarshal_password, ssh_Validate = ssh_Validate_model\<rparr>"

text \<open>
  A one-line document whose auto-restart interval is written \<^verbatim>\<open>${IV}s\<close>, the
  configuration it denotes when \<open>IV\<close> is 30 (thirty seconds, in nanoseconds), a
  decoder that knows this document and rejects the interval \<^verbatim>\<open>s\<close>, and an
  environment in which \<open>IV\<close> is set.
\<close>

definition ex_interval_doc :: "string \<Rightarrow> string" where
  "ex_interval_doc iv =
     ''{ssh: {user: testuser, password: testpass, host: bastion.com, port: 22}, '' @
     ''tunnels: [{name: b, remoteHost: 127.0.0.1, remotePort: 1521, localPort: 1522, '' @
     ''autoRestart: {enabled: true, interval: '' @ iv @ ''s}}]}''"

definition ex_interval_config :: Config where
  "ex_interval_config =
     \<lparr>SSH = ex_ssh,
      TunnelConfigs =
        [\<lparr>Name = ''b'', RemoteHost = ''127.0.0.1'', RemotePort = 1521, LocalPort = 1522,
          AutoRestart = \<lparr>Enabled = True, Interval = 30000000000\<rparr>\<rparr>]\<rparr>"

definition ex_Unmarshal_interval :: "string \<Rightarrow> string + Config" where
  "ex_Unmarshal_interval text =
     (if text = ex_interval_doc ''30'' then Inr ex_interval_config
      else if text = ex_interval_doc []
        then Inl ''yaml: unmarshal errors: cannot unmarshal !!str s into time.Duration''
      else Inl ''yaml: unmarshal error'')"

definition ex_environ_iv :: "string \<Rightarrow> string option" where
  "ex_environ_iv key = (if key = ''IV'' then Some ''30'' else None)"

definition ex_interval_deps :: "(string \<Rightarrow> string option) \<Rightarrow> load_deps" where
  "ex_interval_deps environ =
     \<lparr>ReadFile = ex_ReadFile (ex_interval_doc ''${IV}''), ExpandEnv = os_ExpandEnv environ,
      yaml_Unmarshal = ex_Unmarshal_interval, ssh_Validate = ssh_Validate_model\<rparr>"

section \<open>Validation: proofs\<close>

lemma validate_tunnels_None_iff:
  "validate_tunnels i N P ts = None \<longleftrightarrow>
     list_all entry_ok ts \<and> distinct (map Name ts) \<and> set (map Name ts) \<inter> N = {} \<and>
     distinct (map LocalPort ts) \<and> set (map LocalPort ts) \<inter> P = {}"
  by (induction ts arbitrary: i N P) (auto simp: entry_ok_def)

lemma count_list_twice: "x \<in> set pre \<Longrightarrow> 1 < count_list (pre @ x # ts) x"
  by (induction pre) auto

text \<open>
  The loop invariant: \<open>pre\<close> is the part of the tunnel list already checked, the index
  is its length and the two maps hold its names and local ports.
\<close>

lemma validate_tunnels_Some:
  "TunnelConfigs c = pre @ ts \<Longrightarrow>
   validate_tunnels (length pre) (set (map Name pre)) (set (map LocalPort pre)) ts = Some e \<Longrightarrow>
   error_explained sv c e"
proof (induction ts arbitrary: pre)
  case Nil
  then show ?case by simp
next
  case (Cons t ts)
  have at: "TunnelConfigs c ! length pre = t"
    using Cons.prems(1) by simp
  have len: "length pre < length (TunnelConfigs c)"
    using Cons.prems(1) by simp
  have dupN: "1 < count_list (map Name (TunnelConfigs c)) (Name t)"
    if "Name t \<in> set (map Name pre)"
    using count_list_twice [OF that, of "map Name ts"] Cons.prems(1) by simp
  have dupP: "1 < count_list (map LocalPort (TunnelConfigs c)) (LocalPort t)"
    if "LocalPort t \<in> set (map LocalPort pre)"
    using count_list_twice [OF that, of "map LocalPort ts"] Cons.prems(1) by simp
  have step: "error_explained sv c e"
    if "validate_tunnels (Suc (length pre)) (insert (Name t) (set (map Name pre)))
      (insert (LocalPort t) (set (map LocalPort pre))) ts = Some e"
    using Cons.IH [of "pre @ [t]"] Cons.prems(1) that by simp
  show ?case
  proof (cases "validate_tunnels (length pre) (set (map Name pre)) (set (map LocalPort pre)) (t # ts)
      = validate_tunnels (Suc (length pre)) (insert (Name t) (set (map Name pre)))
          (insert (LocalPort t) (set (map LocalPort pre))) ts")
    case True
    with Cons.prems(2) step show ?thesis by simp
  next
    case False
    with Cons.prems(2) at len dupN dupP show ?thesis
      by (auto split: if_splits)
  qed
qed

lemma Validate_None_iff:
  "Validate sv c = None \<longleftrightarrow>
     sv (SSH c) = None \<and> TunnelConfigs c \<noteq> [] \<and> tunnel_entries_ok (TunnelConfigs c)"
  by (simp add: Validate_def tunnel_entries_ok_def validate_tunnels_None_iff split: option.splits)

lemma Validate_Some: "Validate sv c = Some e \<Longrightarrow> error_explained sv c e"
  using validate_tunnels_Some [of c "[]" "TunnelConfigs c" e sv]
  by (auto simp: Validate_def split: option.splits if_splits)

text \<open>
  Claim C7, as amended. Validation succeeds exactly when the SSH section validates, there
  is at least one tunnel, and every tunnel entry has a non-empty name unique among the
  tunnels, a non-empty remote host, positive remote and local ports, a local port unique
  among the tunnels and, when auto-restart is enabled, a positive interval. Every failure
  is explained by its error value: a failure of one entry carries the index of that
  entry, a duplicate name carries the name, and a duplicate local port carries the port
  number (neither index nor name).
\<close>

theorem Validate_characterised:
  "(Validate sv c = None \<longleftrightarrow>
      sv (SSH c) = None \<and> TunnelConfigs c \<noteq> [] \<and> tunnel_entries_ok (TunnelConfigs c)) \<and>
   (\<forall>e. Validate sv c = Some e \<longrightarrow> error_explained sv c e)"
  using Validate_None_iff [of sv c] Validate_Some [of sv c] by blast

theorem Validate_characterised_witness:
  "Validate ssh_Validate_model (ex_config [ex_tunnel ''a'' 1521 1521, ex_tunnel ''b'' 1521 1522]) = None \<and>
   Validate ssh_Validate_model (ex_config [ex_tunnel ''a'' 1521 1521, ex_tunnel ''b'' 0 1522])
     = Some (RemotePortInvalid 1) \<and>
   error_explained ssh_Validate_model
     (ex_config [ex_tunnel ''a'' 1521 1521, ex_tunnel ''b'' 0 1522]) (RemotePortInvalid 1)"
proof -
  let ?good = "ex_config [ex_tunnel ''a'' 1521 1521, ex_tunnel ''b'' 1521 1522]"
  let ?bad = "ex_config [ex_tunnel ''a'' 1521 1521, ex_tunnel ''b'' 0 1522]"
  have "ssh_Validate_model (SSH ?good) = None \<and> TunnelConfigs ?good \<noteq> [] \<and>
      tunnel_entries_ok (TunnelConfigs ?good)"
    by (simp add: ssh_Validate_model_def ex_config_def ex_ssh_def ex_tunnel_def
        tunnel_entries_ok_def entry_ok_def)
  with Validate_characterised [of ssh_Validate_model ?good]
  have good: "Validate ssh_Validate_model ?good = None" by blast
  have bad: "Validate ssh_Validate_model ?bad = Some (RemotePortInvalid 1)"
    by (simp add: Validate_def ssh_Validate_model_def ex_config_def ex_ssh_def ex_tunnel_def)
  with Validate_characterised [of ssh_Validate_model ?bad]
  have "error_explained ssh_Validate_model ?bad (RemotePortInvalid 1)" by blast
  with good bad show ?thesis by simp
qed

text \<open>
  Claim C7 as stated fails twice. A document with a valid SSH section and no tunnel
  satisfies the conditions on every tunnel entry and is rejected; and two tunnels
  \<open>a\<close> (index 0) and \<open>b\<close> (index 1) that share local port 1521 are rejected with
  "duplicate localPort: 1521", a message that names neither an index nor a tunnel.
\<close>

theorem Validate_claim_counterexample:
  "\<not> (Validate ssh_Validate_model (ex_config []) = None \<longleftrightarrow>
        tunnel_entries_ok (TunnelConfigs (ex_config []))) \<and>
   Validate ssh_Validate_model (ex_config [ex_tunnel ''a'' 1521 1521, ex_tunnel ''b'' 1522 1521])
     = Some (DuplicateLocalPort 1521)"
  by (simp add: Validate_def ssh_Validate_model_def ex_config_def ex_ssh_def ex_tunnel_def
      tunnel_entries_ok_def)

section \<open>The manager: what each call changes\<close>

subsection \<open>Association lists\<close>

lemma keys_delete: "fst ` set (AList.delete k al) = fst ` set al - {k}"
  by (induction al) auto

lemma map_of_Some_key: "map_of al k = Some v \<Longrightarrow> k \<in> fst ` set al"
  by (metis map_of_eq_None_iff option.distinct(1))

lemma keys_update_present:
  "map_of al k = Some v \<Longrightarrow> fst ` set (AList.update k v' al) = fst ` set al"
  by (auto simp: dom_update dest: map_of_SomeD intro: rev_image_eqI)

lemma map_of_None_keys: "map_of al k = None \<longleftrightarrow> k \<notin> fst ` set al"
  by (simp add: map_of_eq_None_iff)

lemma stopAutoRestartForTunnel_eq:
  "stopAutoRestartForTunnel m name = m\<lparr>tunnelDones := AList.delete name (tunnelDones m)\<rparr>"
  by (simp add: stopAutoRestartForTunnel_def map_of_None_keys split: option.splits)

subsection \<open>Add\<close>

lemma Add_keys:
  "fst ` set (tunnels (fst (Add lib m cfg))) = insert (Name cfg) (fst ` set (tunnels m))"
  by (auto simp: Add_def Let_def dom_update split: option.splits dest: map_of_SomeD intro: rev_image_eqI)

lemma Add_tunnelDones: "tunnelDones (fst (Add lib m cfg)) = tunnelDones m"
  by (simp add: Add_def Let_def split: option.splits)

lemma Add_configs_keys:
  "fst ` set (configs (fst (Add lib m cfg))) =
     (if Name cfg \<in> fst ` set (tunnels m) then fst ` set (configs m)
      else insert (Name cfg) (fst ` set (configs m)))"
  by (auto simp: Add_def Let_def dom_update map_of_None_keys split: option.splits
      dest: map_of_Some_key)

lemma Add_configs_other:
  "n \<noteq> Name cfg \<Longrightarrow> map_of (configs (fst (Add lib m cfg))) n = map_of (configs m) n"
  by (simp add: Add_def Let_def update_conv' split: option.splits)

lemma Add_tunnels_other:
  "n \<noteq> Name cfg \<Longrightarrow> map_of (tunnels (fst (Add lib m cfg))) n = map_of (tunnels m) n"
  by (simp add: Add_def Let_def update_conv' split: option.splits)

subsection \<open>Remove\<close>

lemma Remove_tunnelDones:
  "tunnelDones (fst (Remove lib m name)) = AList.delete name (tunnelDones m)"
  by (simp add: Remove_def stopAutoRestartForTunnel_eq Let_def split: option.splits prod.splits)

lemma Remove_tunnels_other:
  "n \<noteq> name \<Longrightarrow> map_of (tunnels (fst (Remove lib m name))) n = map_of (tunnels m) n"
  by (simp add: Remove_def stopAutoRestartForTunnel_eq Let_def update_conv' delete_conv'
      split: option.splits prod.splits)

lemma Remove_configs_other:
  "n \<noteq> name \<Longrightarrow> map_of (configs (fst (Remove lib m name))) n = map_of (configs m) n"
  by (simp add: Remove_def stopAutoRestartForTunnel_eq Let_def update_conv' delete_conv'
      split: option.splits prod.splits)

lemma Remove_keys:
  "fst ` set (tunnels (fst (Remove lib m name))) =
     (if stuck lib m name then fst ` set (tunnels m) else fst ` set (tunnels m) - {name})"
  by (auto simp: Remove_def stopAutoRestartForTunnel_eq Let_def stuck_def keys_delete
      keys_update_present map_of_None_keys
      split: option.splits prod.splits)

lemma Remove_configs_keys:
  "fst ` set (configs (fst (Remove lib m name))) =
     (if stuck lib m name \<or> name \<notin> fst ` set (tunnels m) then fst ` set (configs m)
      else fst ` set (configs m) - {name})"
  by (auto simp: Remove_def stopAutoRestartForTunnel_eq Let_def stuck_def keys_delete
      keys_update_present map_of_None_keys
      split: option.splits prod.splits dest: map_of_Some_key)

subsection \<open>Start, Stop, Restart\<close>

lemma Start_keys: "fst ` set (tunnels (fst (Start lib m name))) = fst ` set (tunnels m)"
  by (auto simp: Start_def startAutoRestartForTunnel_def Let_def keys_update_present
      split: option.splits prod.splits)

lemma Start_configs: "configs (fst (Start lib m name)) = configs m"
  by (simp add: Start_def startAutoRestartForTunnel_def Let_def split: option.splits prod.splits)

lemma Start_tunnelDones_keys:
  "fst ` set (tunnelDones (fst (Start lib m name))) \<subseteq> insert name (fst ` set (tunnelDones m))"
  by (auto simp: Start_def startAutoRestartForTunnel_def Let_def dom_update
      split: option.splits prod.splits)

lemma Start_tunnelDones_absent:
  "name \<notin> fst ` set (tunnels m) \<Longrightarrow> tunnelDones (fst (Start lib m name)) = tunnelDones m"
  by (simp add: Start_def map_of_None_keys [symmetric])

lemma Start_tunnels_other:
  "n \<noteq> name \<Longrightarrow> map_of (tunnels (fst (Start lib m name))) n = map_of (tunnels m) n"
  by (simp add: Start_def startAutoRestartForTunnel_def Let_def update_conv'
      split: option.splits prod.splits)

lemma Stop_keys: "fst ` set (tunnels (fst (Stop lib m name))) = fst ` set (tunnels m)"
  by (auto simp: Stop_def stopAutoRestartForTunnel_eq Let_def keys_update_present
      split: option.splits prod.splits)

lemma Stop_configs: "configs (fst (Stop lib m name)) = configs m"
  by (simp add: Stop_def stopAutoRestartForTunnel_eq Let_def split: option.splits prod.splits)

lemma Stop_tunnelDones: "tunnelDones (fst (Stop lib m name)) = AList.delete name (tunnelDones m)"
  by (simp add: Stop_def stopAutoRestartForTunnel_eq Let_def split: option.splits prod.splits)

lemma Restart_keys: "fst ` set (tunnels (fst (Restart lib m name))) = fst ` set (tunnels m)"
  by (auto simp: Restart_def Let_def keys_update_present split: option.splits prod.splits)

lemma Restart_configs: "configs (fst (Restart lib m name)) = configs m"
  by (simp add: Restart_def Let_def split: option.splits prod.splits)

lemma Restart_tunnelDones: "tunnelDones (fst (Restart lib m name)) = tunnelDones m"
  by (simp add: Restart_def Let_def split: option.splits prod.splits)

lemma Restart_tunnels_other:
  "n \<noteq> name \<Longrightarrow> map_of (tunnels (fst (Restart lib m name))) n = map_of (tunnels m) n"
  by (simp add: Restart_def update_conv' split: option.splits prod.splits)


lemma Add_sshConfig: "sshConfig (fst (Add lib m cfg)) = sshConfig m"
  by (simp add: Add_def Let_def split: option.splits)
lemma Remove_sshConfig: "sshConfig (fst (Remove lib m n)) = sshConfig m"
  by (simp add: Remove_def stopAutoRestartForTunnel_eq Let_def split: option.splits prod.splits)
lemma Start_sshConfig: "sshConfig (fst (Start lib m n)) = sshConfig m"
  by (simp add: Start_def startAutoRestartForTunnel_def Let_def split: option.splits prod.splits)
lemma Restart_sshConfig: "sshConfig (fst (Restart lib m n)) = sshConfig m"
  by (simp add: Restart_def Let_def split: option.splits prod.splits)

lemma stuck_cong: "map_of (tunnels m') n = map_of (tunnels m) n \<Longrightarrow> stuck lib m' n = stuck lib m n"
  by (simp add: stuck_def)

lemma stuck_key: "stuck lib m n \<Longrightarrow> n \<in> fst ` set (tunnels m)"
  by (auto simp: stuck_def split: option.splits dest: map_of_Some_key)

subsection \<open>The map of new configurations\<close>

lemma find_app:
  "find P (xs @ ys) = (case find P xs of Some x \<Rightarrow> Some x | None \<Rightarrow> find P ys)"
  by (induction xs) simp_all

lemma newConfigs_foldl_map_of:
  "map_of (foldl (\<lambda>acc cfg. AList.update (Name cfg) cfg acc) acc cfgs) n =
     (case find (\<lambda>c. Name c = n) (rev cfgs) of Some c \<Rightarrow> Some c | None \<Rightarrow> map_of acc n)"
proof (induction cfgs arbitrary: acc)
  case Nil
  show ?case by simp
next
  case (Cons c cfgs)
  show ?case
    by (simp add: Cons.IH update_conv' find_app split: option.splits)
qed

lemma newConfigs_foldl_distinct:
  "distinct (map fst acc) \<Longrightarrow>
   distinct (map fst (foldl (\<lambda>acc cfg. AList.update (Name cfg) cfg acc) acc cfgs))"
  by (induction cfgs arbitrary: acc) (simp_all add: distinct_update)

lemma newConfigs_foldl_keys:
  "fst ` set (foldl (\<lambda>acc cfg. AList.update (Name cfg) cfg acc) acc cfgs) =
     fst ` set acc \<union> Name ` set cfgs"
  by (induction cfgs arbitrary: acc) (auto simp: dom_update)

lemma newConfigs_map_of: "map_of (newConfigs_of (TunnelConfigs new)) n = desired new n"
  by (simp add: newConfigs_of_def desired_def newConfigs_foldl_map_of split: option.splits)

lemma newConfigs_distinct: "distinct (map fst (newConfigs_of cfgs))"
  by (simp add: newConfigs_of_def newConfigs_foldl_distinct)

lemma newConfigs_keys: "fst ` set (newConfigs_of cfgs) = Name ` set cfgs"
  by (simp add: newConfigs_of_def newConfigs_foldl_keys)

lemma desired_Name: "desired new n = Some c \<Longrightarrow> Name c = n"
  by (auto simp: desired_def dest: find_Some_iff [THEN iffD1])

lemma newConfigs_entry: "(n, c) \<in> set (newConfigs_of (TunnelConfigs new)) \<Longrightarrow> desired new n = Some c"
  using newConfigs_distinct [of "TunnelConfigs new"] newConfigs_map_of [of new n]
  by (simp add: map_of_eq_Some_iff)

subsection \<open>The three loops of Reconcile\<close>

lemma reconcile_remove_Cons:
  "reconcile_remove lib nn (m, lg) (name # rest) =
     (if name \<in> set nn then reconcile_remove lib nn (m, lg) rest
      else reconcile_remove lib nn
             (fst (Remove lib m name),
              lg @ LogRemoving name #
                (case snd (Remove lib m name) of None \<Rightarrow> [] | Some e \<Rightarrow> [LogRemoveFailed name e]))
             rest)"
  by (simp split: prod.splits option.splits)

lemma reconcile_add_Cons:
  "reconcile_add lib cur (m, lg) ((name, cfg) # rest) =
     (if name \<in> set cur then reconcile_add lib cur (m, lg) rest
      else case snd (Add lib m cfg) of
        Some e \<Rightarrow>
          reconcile_add lib cur (fst (Add lib m cfg), lg @ [LogAdding name, LogAddFailed name e]) rest
      | None \<Rightarrow>
          reconcile_add lib cur
            (fst (Start lib (fst (Add lib m cfg)) name),
             lg @ LogAdding name #
               (case snd (Start lib (fst (Add lib m cfg)) name) of
                  None \<Rightarrow> [] | Some e \<Rightarrow> [LogStartFailed name e]))
            rest)"
  by (cases "Add lib m cfg"; cases "Start lib (fst (Add lib m cfg)) name")
    (auto split: option.splits)

lemma reconcile_update_Cons:
  "reconcile_update lib cur (m, lg) ((name, nc) # rest) =
     (case map_of (configs m) name of
        None \<Rightarrow> reconcile_update lib cur (m, lg) rest
      | Some c \<Rightarrow>
          if name \<in> set cur \<and> tunnelConfigChanged c nc then
            reconcile_update lib cur
              (fst (Restart lib (m\<lparr>configs := AList.update name nc (configs m)\<rparr>) name),
               lg @ LogRestarting name #
                 (case snd (Restart lib (m\<lparr>configs := AList.update name nc (configs m)\<rparr>) name) of
                    None \<Rightarrow> [] | Some e \<Rightarrow> [LogRestartFailed name e]))
              rest
          else reconcile_update lib cur (m, lg) rest)"
  by (simp split: prod.splits option.splits)

lemma reconcile_remove_keys:
  "distinct ns \<Longrightarrow>
   fst ` set (tunnels (fst (reconcile_remove lib nn (m, lg) ns))) =
     fst ` set (tunnels m) - {n \<in> set ns. n \<notin> set nn \<and> \<not> stuck lib m n}"
proof (induction ns arbitrary: m lg)
  case Nil
  show ?case by simp
next
  case (Cons name rest)
  have other: "stuck lib (fst (Remove lib m name)) n = stuck lib m n" if "n \<in> set rest" for n
    using that Cons.prems by (intro stuck_cong Remove_tunnels_other) auto
  from Cons.prems have d: "distinct rest" and nm: "name \<notin> set rest" by simp_all
  show ?case
  proof (cases "name \<in> set nn")
    case True
    with Cons.IH [OF d] show ?thesis
      by (auto simp: reconcile_remove_Cons simp del: reconcile_remove.simps)
  next
    case False
    with Cons.IH [OF d, of "fst (Remove lib m name)"] other nm show ?thesis
      by (auto simp: reconcile_remove_Cons Remove_keys simp del: reconcile_remove.simps)
  qed
qed

lemma reconcile_remove_tunnels_kept:
  "n \<in> set nn \<Longrightarrow>
   map_of (tunnels (fst (reconcile_remove lib nn (m, lg) ns))) n = map_of (tunnels m) n"
proof (induction ns arbitrary: m lg)
  case Nil
  show ?case by simp
next
  case (Cons name rest)
  have "n \<noteq> name" if "name \<notin> set nn"
    using that Cons.prems by auto
  with Cons show ?case
    by (simp add: reconcile_remove_Cons Remove_tunnels_other del: reconcile_remove.simps)
qed

lemma reconcile_remove_configs_kept:
  "n \<in> set nn \<Longrightarrow>
   map_of (configs (fst (reconcile_remove lib nn (m, lg) ns))) n = map_of (configs m) n"
proof (induction ns arbitrary: m lg)
  case Nil
  show ?case by simp
next
  case (Cons name rest)
  have "n \<noteq> name" if "name \<notin> set nn"
    using that Cons.prems by auto
  with Cons show ?case
    by (simp add: reconcile_remove_Cons Remove_configs_other del: reconcile_remove.simps)
qed

lemma reconcile_remove_sshConfig:
  "sshConfig (fst (reconcile_remove lib nn (m, lg) ns)) = sshConfig m"
  by (induction ns arbitrary: m lg)
    (simp_all add: reconcile_remove_Cons Remove_sshConfig del: reconcile_remove.simps(2))

lemma reconcile_remove_noop:
  "set ns \<subseteq> set nn \<Longrightarrow> reconcile_remove lib nn (m, lg) ns = (m, lg)"
  by (induction ns) (simp_all add: reconcile_remove_Cons del: reconcile_remove.simps(2))

lemma Add_configs_same:
  "map_of (configs (fst (Add lib m cfg))) (Name cfg) =
     (if Name cfg \<in> fst ` set (tunnels m) then map_of (configs m) (Name cfg) else Some cfg)"
  by (auto simp: Add_def Let_def update_conv' map_of_None_keys split: option.splits
      dest: map_of_Some_key)

text \<open>The state the second loop continues with after it has handled one new name.\<close>

lemma reconcile_add_Cons_new:
  assumes "name \<notin> set cur"
  obtains m' lg' where
    "reconcile_add lib cur (m, lg) ((name, cfg) # rest) = reconcile_add lib cur (m', lg') rest"
    "fst ` set (tunnels m') = fst ` set (tunnels (fst (Add lib m cfg)))"
    "configs m' = configs (fst (Add lib m cfg))"
    "sshConfig m' = sshConfig m"
proof (cases "snd (Add lib m cfg)")
  case None
  with assms show ?thesis
    by (intro that [of "fst (Start lib (fst (Add lib m cfg)) name)"])
      (simp_all add: reconcile_add_Cons Start_keys Start_configs Start_sshConfig Add_sshConfig
        del: reconcile_add.simps(2))
next
  case (Some e)
  with assms show ?thesis
    by (intro that [of "fst (Add lib m cfg)"])
      (simp_all add: reconcile_add_Cons Add_sshConfig del: reconcile_add.simps(2))
qed

lemma reconcile_add_keys:
  "\<forall>(n, c) \<in> set ncs. Name c = n \<Longrightarrow>
   fst ` set (tunnels (fst (reconcile_add lib cur (m, lg) ncs))) =
     fst ` set (tunnels m) \<union> {n \<in> fst ` set ncs. n \<notin> set cur}"
proof (induction ncs arbitrary: m lg)
  case Nil
  show ?case by simp
next
  case (Cons a rest)
  obtain name cfg where a: "a = (name, cfg)" by (cases a)
  from Cons.prems a have nm: "Name cfg = name" and wf: "\<forall>(n, c) \<in> set rest. Name c = n"
    by simp_all
  have comp: "{n \<in> fst ` set (a # rest). n \<notin> set cur} =
      (if name \<in> set cur then {} else {name}) \<union> {n \<in> fst ` set rest. n \<notin> set cur}"
    using a by auto
  show ?case
  proof (cases "name \<in> set cur")
    case True
    have eq: "reconcile_add lib cur (m, lg) (a # rest) = reconcile_add lib cur (m, lg) rest"
      using True a by (simp add: reconcile_add_Cons del: reconcile_add.simps)
    show ?thesis
      unfolding eq Cons.IH [OF wf] comp using True by simp
  next
    case False
    obtain m' lg' where
      step: "reconcile_add lib cur (m, lg) ((name, cfg) # rest) = reconcile_add lib cur (m', lg') rest"
      and keys: "fst ` set (tunnels m') = fst ` set (tunnels (fst (Add lib m cfg)))"
      and cfgs: "configs m' = configs (fst (Add lib m cfg))"
      and ssh: "sshConfig m' = sshConfig m"
      by (rule reconcile_add_Cons_new [OF False, of lib m lg cfg rest])
    have eq: "reconcile_add lib cur (m, lg) (a # rest) = reconcile_add lib cur (m', lg') rest"
      unfolding a by (rule step)
    show ?thesis
      unfolding eq Cons.IH [OF wf] comp keys Add_keys nm using False by auto
  qed
qed

lemma reconcile_add_configs:
  "distinct (map fst ncs) \<Longrightarrow> \<forall>(n, c) \<in> set ncs. Name c = n \<Longrightarrow>
   map_of (configs (fst (reconcile_add lib cur (m, lg) ncs))) n =
     (case map_of ncs n of
        Some c \<Rightarrow>
          if n \<notin> set cur \<and> n \<notin> fst ` set (tunnels m) then Some c else map_of (configs m) n
      | None \<Rightarrow> map_of (configs m) n)"
proof (induction ncs arbitrary: m lg)
  case Nil
  show ?case by simp
next
  case (Cons a rest)
  obtain name cfg where a: "a = (name, cfg)" by (cases a)
  from Cons.prems a have nm: "Name cfg = name" and wf: "\<forall>(n, c) \<in> set rest. Name c = n"
    and d: "distinct (map fst rest)" and fresh: "map_of rest name = None"
    by (simp_all add: map_of_None_keys)
  show ?case
  proof (cases "name \<in> set cur")
    case True
    with Cons.IH [OF d wf, of m lg] a fresh show ?thesis
      by (auto simp: reconcile_add_Cons simp del: reconcile_add.simps split: option.splits)
  next
    case False
    obtain m' lg' where
      step: "reconcile_add lib cur (m, lg) ((name, cfg) # rest) = reconcile_add lib cur (m', lg') rest"
      and keys: "fst ` set (tunnels m') = fst ` set (tunnels (fst (Add lib m cfg)))"
      and cfgs: "configs m' = configs (fst (Add lib m cfg))"
      and ssh: "sshConfig m' = sshConfig m"
      by (rule reconcile_add_Cons_new [OF False, of lib m lg cfg rest])
    show ?thesis
    proof (cases "n = name")
      case True
      with Cons.IH [OF d wf, of m' lg'] step cfgs a nm False fresh
        Add_configs_same [of lib m cfg]
      show ?thesis by (simp del: reconcile_add.simps)
    next
      case neq: False
      with Cons.IH [OF d wf, of m' lg'] step keys cfgs a nm
        Add_configs_other [of n cfg lib m]
      show ?thesis by (simp add: Add_keys del: reconcile_add.simps split: option.splits)
    qed
  qed
qed

lemma reconcile_add_sshConfig:
  "sshConfig (fst (reconcile_add lib cur (m, lg) ncs)) = sshConfig m"
proof (induction ncs arbitrary: m lg)
  case Nil
  show ?case by simp
next
  case (Cons a rest)
  obtain name cfg where a: "a = (name, cfg)" by (cases a)
  show ?case
  proof (cases "name \<in> set cur")
    case True
    with Cons.IH a show ?thesis
      by (simp add: reconcile_add_Cons del: reconcile_add.simps)
  next
    case False
    obtain m' lg' where
      step: "reconcile_add lib cur (m, lg) ((name, cfg) # rest) = reconcile_add lib cur (m', lg') rest"
      and keys: "fst ` set (tunnels m') = fst ` set (tunnels (fst (Add lib m cfg)))"
      and cfgs: "configs m' = configs (fst (Add lib m cfg))"
      and ssh: "sshConfig m' = sshConfig m"
      by (rule reconcile_add_Cons_new [OF False, of lib m lg cfg rest])
    from Cons.IH [of m' lg'] step ssh a show ?thesis
      by (simp del: reconcile_add.simps)
  qed
qed

lemma reconcile_add_noop:
  "fst ` set ncs \<subseteq> set cur \<Longrightarrow> reconcile_add lib cur (m, lg) ncs = (m, lg)"
proof (induction ncs)
  case Nil
  show ?case by simp
next
  case (Cons a rest)
  obtain name cfg where a: "a = (name, cfg)" by (cases a)
  with Cons show ?case
    by (simp add: reconcile_add_Cons del: reconcile_add.simps(2))
qed

lemma tunnelConfigChanged_iff: "tunnelConfigChanged a b \<longleftrightarrow> \<not> same_settings a b"
  by (auto simp: tunnelConfigChanged_def same_settings_def)

lemma tunnelConfigChanged_refl: "\<not> tunnelConfigChanged c c"
  by (simp add: tunnelConfigChanged_def)

text \<open>The state the third loop continues with after it has handled one name.\<close>

lemma reconcile_update_Cons_step:
  obtains m' lg' where
    "reconcile_update lib cur (m, lg) ((name, nc) # rest) = reconcile_update lib cur (m', lg') rest"
    "fst ` set (tunnels m') = fst ` set (tunnels m)"
    "sshConfig m' = sshConfig m"
    "tunnelDones m' = tunnelDones m"
    "configs m' =
       (case map_of (configs m) name of
          None \<Rightarrow> configs m
        | Some c \<Rightarrow>
            if name \<in> set cur \<and> tunnelConfigChanged c nc
            then AList.update name nc (configs m) else configs m)"
proof (cases "map_of (configs m) name")
  case None
  then show ?thesis
    by (intro that [of m lg]) (simp_all add: reconcile_update_Cons del: reconcile_update.simps(2))
next
  case (Some c)
  show ?thesis
  proof (cases "name \<in> set cur \<and> tunnelConfigChanged c nc")
    case True
    with Some show ?thesis
      by (intro that [of "fst (Restart lib (m\<lparr>configs := AList.update name nc (configs m)\<rparr>) name)"])
        (simp_all add: reconcile_update_Cons Restart_keys Restart_configs Restart_sshConfig
          Restart_tunnelDones del: reconcile_update.simps(2))
  next
    case False
    with Some show ?thesis
      by (intro that [of m lg])
        (auto simp: reconcile_update_Cons simp del: reconcile_update.simps(2))
  qed
qed

lemma reconcile_update_keys:
  "fst ` set (tunnels (fst (reconcile_update lib cur (m, lg) ncs))) = fst ` set (tunnels m)"
proof (induction ncs arbitrary: m lg)
  case Nil
  show ?case by simp
next
  case (Cons a rest)
  obtain name nc where a: "a = (name, nc)" by (cases a)
  obtain m' lg' where
    step: "reconcile_update lib cur (m, lg) ((name, nc) # rest) = reconcile_update lib cur (m', lg') rest"
    and keys: "fst ` set (tunnels m') = fst ` set (tunnels m)"
    and ssh: "sshConfig m' = sshConfig m"
    and dones: "tunnelDones m' = tunnelDones m"
    and cfgs: "configs m' =
       (case map_of (configs m) name of
          None \<Rightarrow> configs m
        | Some c \<Rightarrow>
            if name \<in> set cur \<and> tunnelConfigChanged c nc
            then AList.update name nc (configs m) else configs m)"
    by (rule reconcile_update_Cons_step [of lib cur m lg name nc rest])
  show ?case
    unfolding a step Cons.IH keys by (rule refl)
qed

lemma reconcile_update_sshConfig:
  "sshConfig (fst (reconcile_update lib cur (m, lg) ncs)) = sshConfig m"
proof (induction ncs arbitrary: m lg)
  case Nil
  show ?case by simp
next
  case (Cons a rest)
  obtain name nc where a: "a = (name, nc)" by (cases a)
  obtain m' lg' where
    step: "reconcile_update lib cur (m, lg) ((name, nc) # rest) = reconcile_update lib cur (m', lg') rest"
    and keys: "fst ` set (tunnels m') = fst ` set (tunnels m)"
    and ssh: "sshConfig m' = sshConfig m"
    and dones: "tunnelDones m' = tunnelDones m"
    and cfgs: "configs m' =
       (case map_of (configs m) name of
          None \<Rightarrow> configs m
        | Some c \<Rightarrow>
            if name \<in> set cur \<and> tunnelConfigChanged c nc
            then AList.update name nc (configs m) else configs m)"
    by (rule reconcile_update_Cons_step [of lib cur m lg name nc rest])
  show ?case
    unfolding a step Cons.IH ssh by (rule refl)
qed

lemma reconcile_update_configs:
  "distinct (map fst ncs) \<Longrightarrow>
   map_of (configs (fst (reconcile_update lib cur (m, lg) ncs))) n =
     (case map_of ncs n of
        None \<Rightarrow> map_of (configs m) n
      | Some nc \<Rightarrow>
          (case map_of (configs m) n of
             None \<Rightarrow> None
           | Some c \<Rightarrow> if n \<in> set cur \<and> tunnelConfigChanged c nc then Some nc else Some c))"
proof (induction ncs arbitrary: m lg)
  case Nil
  show ?case by simp
next
  case (Cons a rest)
  obtain name nc where a: "a = (name, nc)" by (cases a)
  from Cons.prems a have d: "distinct (map fst rest)" and fresh: "map_of rest name = None"
    by (simp_all add: map_of_None_keys)
  obtain m' lg' where
    step: "reconcile_update lib cur (m, lg) ((name, nc) # rest) = reconcile_update lib cur (m', lg') rest"
    and keys: "fst ` set (tunnels m') = fst ` set (tunnels m)"
    and ssh: "sshConfig m' = sshConfig m"
    and dones: "tunnelDones m' = tunnelDones m"
    and cfgs: "configs m' =
       (case map_of (configs m) name of
          None \<Rightarrow> configs m
        | Some c \<Rightarrow>
            if name \<in> set cur \<and> tunnelConfigChanged c nc
            then AList.update name nc (configs m) else configs m)"
    by (rule reconcile_update_Cons_step [of lib cur m lg name nc rest])
  have IH: "map_of (configs (fst (reconcile_update lib cur (m, lg) (a # rest)))) n =
     (case map_of rest n of
        None \<Rightarrow> map_of (configs m') n
      | Some nc \<Rightarrow>
          (case map_of (configs m') n of
             None \<Rightarrow> None
           | Some c \<Rightarrow> if n \<in> set cur \<and> tunnelConfigChanged c nc then Some nc else Some c))"
    unfolding a step by (rule Cons.IH [OF d])
  show ?case
  proof (cases "n = name")
    case True
    with IH fresh cfgs a show ?thesis
      by (simp add: update_conv' split: option.splits)
  next
    case False
    have e: "map_of (configs m') n = map_of (configs m) n"
      using False cfgs by (simp add: update_conv' split: option.splits)
    show ?thesis
      unfolding IH e using False a by simp
  qed
qed

lemma reconcile_update_noop:
  "\<forall>(n, nc) \<in> set ncs.
      (case map_of (configs m) n of None \<Rightarrow> True | Some c \<Rightarrow> \<not> tunnelConfigChanged c nc) \<Longrightarrow>
   reconcile_update lib cur (m, lg) ncs = (m, lg)"
proof (induction ncs)
  case Nil
  show ?case by simp
next
  case (Cons a rest)
  obtain name nc where a: "a = (name, nc)" by (cases a)
  with Cons show ?case
    by (simp add: reconcile_update_Cons del: reconcile_update.simps(2) split: option.splits)
qed

subsection \<open>Reconcile as a whole\<close>

lemma newConfigs_wf: "\<forall>(n, c) \<in> set (newConfigs_of cfgs). Name c = n"
proof -
  have "Name c = n" if "(n, c) \<in> set (newConfigs_of cfgs)" for n c
    using newConfigs_entry [of n c "\<lparr>SSH = undefined, TunnelConfigs = cfgs\<rparr>"] that desired_Name
    by fastforce
  then show ?thesis by auto
qed

lemma Reconcile_phases:
  obtains m1 lg1 m2 lg2 where
    "reconcile_remove lib (map Name (TunnelConfigs new)) (m\<lparr>sshConfig := SSH new\<rparr>, [])
       (remdups (List m)) = (m1, lg1)"
    "reconcile_add lib (remdups (List m)) (m1, lg1) (newConfigs_of (TunnelConfigs new)) = (m2, lg2)"
    "Reconcile lib m new =
       reconcile_update lib (remdups (List m)) (m2, lg2) (newConfigs_of (TunnelConfigs new))"
proof -
  obtain m1 lg1 where 1: "reconcile_remove lib (map Name (TunnelConfigs new))
      (m\<lparr>sshConfig := SSH new\<rparr>, []) (remdups (List m)) = (m1, lg1)"
    by (cases "reconcile_remove lib (map Name (TunnelConfigs new))
      (m\<lparr>sshConfig := SSH new\<rparr>, []) (remdups (List m))")
  obtain m2 lg2 where 2: "reconcile_add lib (remdups (List m)) (m1, lg1)
      (newConfigs_of (TunnelConfigs new)) = (m2, lg2)"
    by (cases "reconcile_add lib (remdups (List m)) (m1, lg1) (newConfigs_of (TunnelConfigs new))")
  have "Reconcile lib m new =
       reconcile_update lib (remdups (List m)) (m2, lg2) (newConfigs_of (TunnelConfigs new))"
    using 1 2 by (simp add: Reconcile_def Let_def List_def)
  with 1 2 show ?thesis by (rule that)
qed

lemma stuck_sshConfig [simp]: "stuck lib (m\<lparr>sshConfig := s\<rparr>) n = stuck lib m n"
  by (simp add: stuck_def)

lemma Reconcile_keys:
  "fst ` set (tunnels (fst (Reconcile lib m new))) =
     Name ` set (TunnelConfigs new) \<union> {n. stuck lib m n}"
proof -
  let ?cur = "remdups (List m)" and ?nn = "map Name (TunnelConfigs new)"
  let ?ncs = "newConfigs_of (TunnelConfigs new)"
  obtain m1 lg1 m2 lg2 where
    1: "reconcile_remove lib ?nn (m\<lparr>sshConfig := SSH new\<rparr>, []) ?cur = (m1, lg1)"
    and 2: "reconcile_add lib ?cur (m1, lg1) ?ncs = (m2, lg2)"
    and 3: "Reconcile lib m new = reconcile_update lib ?cur (m2, lg2) ?ncs"
    by (rule Reconcile_phases [of lib new m])
  have k1: "fst ` set (tunnels m1) =
      fst ` set (tunnels m) - {n \<in> set ?cur. n \<notin> set ?nn \<and> \<not> stuck lib m n}"
    using reconcile_remove_keys [of ?cur lib ?nn "m\<lparr>sshConfig := SSH new\<rparr>" "[]"] 1
    by simp
  have k2: "fst ` set (tunnels m2) = fst ` set (tunnels m1) \<union> {n \<in> fst ` set ?ncs. n \<notin> set ?cur}"
    using reconcile_add_keys [OF newConfigs_wf, of lib ?cur m1 lg1 "TunnelConfigs new"] 2
    by simp
  have k3: "fst ` set (tunnels (fst (Reconcile lib m new))) = fst ` set (tunnels m2)"
    unfolding 3 by (rule reconcile_update_keys)
  have cur: "set ?cur = fst ` set (tunnels m)"
    by (simp add: List_def)
  show ?thesis
    unfolding k3 k2 k1 cur newConfigs_keys using stuck_key [of lib m]
    by auto
qed

lemma Reconcile_configs_at:
  assumes "desired new n = Some nc"
  shows "map_of (configs (fst (Reconcile lib m new))) n =
     (if n \<notin> fst ` set (tunnels m) then Some nc
      else case map_of (configs m) n of
             None \<Rightarrow> None
           | Some c \<Rightarrow> if tunnelConfigChanged c nc then Some nc else Some c)"
proof -
  let ?cur = "remdups (List m)" and ?nn = "map Name (TunnelConfigs new)"
  let ?ncs = "newConfigs_of (TunnelConfigs new)"
  obtain m1 lg1 m2 lg2 where
    1: "reconcile_remove lib ?nn (m\<lparr>sshConfig := SSH new\<rparr>, []) ?cur = (m1, lg1)"
    and 2: "reconcile_add lib ?cur (m1, lg1) ?ncs = (m2, lg2)"
    and 3: "Reconcile lib m new = reconcile_update lib ?cur (m2, lg2) ?ncs"
    by (rule Reconcile_phases [of lib new m])
  have cur: "set ?cur = fst ` set (tunnels m)"
    by (simp add: List_def)
  have ncs: "map_of ?ncs n = Some nc"
    using assms by (simp add: newConfigs_map_of)
  then have nn: "n \<in> set ?nn"
    using newConfigs_keys [of "TunnelConfigs new"] map_of_Some_key [of ?ncs n nc] by simp
  have c1: "map_of (configs m1) n = map_of (configs m) n"
    using reconcile_remove_configs_kept [OF nn, of lib "m\<lparr>sshConfig := SSH new\<rparr>" "[]" ?cur] 1
    by simp
  have t1: "map_of (tunnels m1) n = map_of (tunnels m) n"
    using reconcile_remove_tunnels_kept [OF nn, of lib "m\<lparr>sshConfig := SSH new\<rparr>" "[]" ?cur] 1
    by simp
  have k1: "n \<in> fst ` set (tunnels m1) \<longleftrightarrow> n \<in> fst ` set (tunnels m)"
    using t1 by (metis map_of_None_keys)
  have c2: "map_of (configs m2) n =
      (if n \<notin> fst ` set (tunnels m) then Some nc else map_of (configs m) n)"
    using reconcile_add_configs [OF newConfigs_distinct newConfigs_wf,
        of lib ?cur m1 lg1 "TunnelConfigs new" n] 2 ncs c1 k1 cur
    by simp
  have c3: "map_of (configs (fst (Reconcile lib m new))) n =
      (case map_of (configs m2) n of
         None \<Rightarrow> None
       | Some c \<Rightarrow> if n \<in> set ?cur \<and> tunnelConfigChanged c nc then Some nc else Some c)"
    unfolding 3
    using reconcile_update_configs [OF newConfigs_distinct, of lib ?cur m2 lg2 "TunnelConfigs new" n] ncs
    by simp
  show ?thesis
    unfolding c3 c2 cur by (simp add: tunnelConfigChanged_refl split: option.splits)
qed

lemma Reconcile_sshConfig: "sshConfig (fst (Reconcile lib m new)) = SSH new"
proof -
  let ?cur = "remdups (List m)" and ?nn = "map Name (TunnelConfigs new)"
  let ?ncs = "newConfigs_of (TunnelConfigs new)"
  obtain m1 lg1 m2 lg2 where
    1: "reconcile_remove lib ?nn (m\<lparr>sshConfig := SSH new\<rparr>, []) ?cur = (m1, lg1)"
    and 2: "reconcile_add lib ?cur (m1, lg1) ?ncs = (m2, lg2)"
    and 3: "Reconcile lib m new = reconcile_update lib ?cur (m2, lg2) ?ncs"
    by (rule Reconcile_phases [of lib new m])
  have "sshConfig m1 = SSH new"
    using reconcile_remove_sshConfig [of lib ?nn "m\<lparr>sshConfig := SSH new\<rparr>" "[]" ?cur] 1 by simp
  moreover have "sshConfig m2 = sshConfig m1"
    using reconcile_add_sshConfig [of lib ?cur m1 lg1 ?ncs] 2 by simp
  ultimately show ?thesis
    unfolding 3 by (simp add: reconcile_update_sshConfig)
qed

section \<open>Reconcile: the properties\<close>

text \<open>The definitions that an evaluated example unfolds.\<close>

lemmas sim_defs = sim_pkg_def sim_New_def sim_Start_def sim_Stop_def sim_Restart_def
  sim_LastError_def

lemmas ex_defs = ex_ssh_def ex_tunnel_def ex_config_def

lemmas mgr_defs = NewManager_def Add_def Remove_def Start_def Stop_def Restart_def List_def
  startAutoRestartForTunnel_def stopAutoRestartForTunnel_def Reconcile_def newConfigs_of_def
  tunnelConfigChanged_def StopAll_def Close_def

lemma ex_running_eq:
  "ex_running k =
     \<lparr>sshConfig = ex_ssh,
      tunnels = [(''a'', \<lparr>sim_status = StatusRunning, sim_stop_failures = k\<rparr>)],
      configs = [(''a'', ex_tunnel ''a'' 1521 1521)], tunnelDones = [], doneClosed = False\<rparr>"
  by (simp add: ex_running_def sim_defs mgr_defs ex_tunnel_def)

lemma Reconcile_names:
  "set (List (fst (Reconcile lib m new))) =
     set (map Name (TunnelConfigs new)) \<union> set (leftover lib m new)"
  using Reconcile_keys [of lib m new] stuck_key [of lib m]
  by (auto simp: List_def leftover_def)

lemma Reconcile_configs_match:
  assumes "fst ` set (tunnels m) \<subseteq> fst ` set (configs m)"
    and "n \<in> set (map Name (TunnelConfigs new))"
  shows "\<exists>c nc. map_of (configs (fst (Reconcile lib m new))) n = Some c \<and>
           desired new n = Some nc \<and> same_settings c nc"
proof -
  from assms(2) obtain nc where nc: "desired new n = Some nc"
    using newConfigs_keys [of "TunnelConfigs new"] newConfigs_map_of [of new n]
      map_of_None_keys [of "newConfigs_of (TunnelConfigs new)" n]
    by (cases "desired new n") auto
  have same: "same_settings nc nc"
    by (simp add: same_settings_def)
  show ?thesis
  proof (cases "n \<in> fst ` set (tunnels m)")
    case False
    with Reconcile_configs_at [OF nc, of lib m] nc same show ?thesis
      by simp
  next
    case True
    with assms(1) obtain c where c: "map_of (configs m) n = Some c"
      using map_of_None_keys [of "configs m" n] by (cases "map_of (configs m) n") auto
    with Reconcile_configs_at [OF nc, of lib m] True nc same show ?thesis
      by (auto simp: tunnelConfigChanged_iff)
  qed
qed

text \<open>
  Claim C1, as amended. After \<^verbatim>\<open>Reconcile(new)\<close> the registered names are the
  names of \<open>new\<close> together with the leftover names: those registered before, absent
  from \<open>new\<close>, whose tunnel is running and whose \<^verbatim>\<open>Stop\<close> returns an error
  (their removal fails and is only logged). When every registered tunnel has a stored
  configuration, every name of \<open>new\<close> then has a stored configuration with the same
  remote host, remote port, local port and auto-restart fields as its entry in \<open>new\<close>.
\<close>

theorem Reconcile_postcondition:
  assumes "fst ` set (tunnels m) \<subseteq> fst ` set (configs m)"
  shows "set (List (fst (Reconcile lib m new))) =
           set (map Name (TunnelConfigs new)) \<union> set (leftover lib m new) \<and>
         (\<forall>n \<in> set (map Name (TunnelConfigs new)).
            \<exists>c nc. map_of (configs (fst (Reconcile lib m new))) n = Some c \<and>
              desired new n = Some nc \<and> same_settings c nc)"
  using Reconcile_names [of lib m new] Reconcile_configs_match [OF assms, of _ new lib]
  by blast

theorem Reconcile_postcondition_witness:
  "fst ` set (tunnels (ex_running 0)) \<subseteq> fst ` set (configs (ex_running 0)) \<and>
   set (List (fst (Reconcile (sim_pkg 0) (ex_running 0)
     (ex_config [ex_tunnel ''a'' 1521 1600, ex_tunnel ''b'' 1521 1522])))) = {''a'', ''b''} \<and>
   (\<exists>c. map_of (configs (fst (Reconcile (sim_pkg 0) (ex_running 0)
            (ex_config [ex_tunnel ''a'' 1521 1600, ex_tunnel ''b'' 1521 1522])))) ''a'' = Some c \<and>
        same_settings c (ex_tunnel ''a'' 1521 1600))"
proof -
  let ?new = "ex_config [ex_tunnel ''a'' 1521 1600, ex_tunnel ''b'' 1521 1522]"
  have hyp: "fst ` set (tunnels (ex_running 0)) \<subseteq> fst ` set (configs (ex_running 0))"
    by (simp add: ex_running_eq)
  have names: "set (map Name (TunnelConfigs ?new)) = {''a'', ''b''}"
    by (simp add: ex_defs)
  have left: "leftover (sim_pkg 0) (ex_running 0) ?new = []"
    by (simp add: leftover_def ex_running_eq ex_defs List_def)
  have want: "desired ?new ''a'' = Some (ex_tunnel ''a'' 1521 1600)"
    by (simp add: desired_def ex_defs)
  from Reconcile_postcondition [OF hyp, of "sim_pkg 0" ?new]
  have 1: "set (List (fst (Reconcile (sim_pkg 0) (ex_running 0) ?new))) = {''a'', ''b''}"
    and 2: "\<exists>c nc. map_of (configs (fst (Reconcile (sim_pkg 0) (ex_running 0) ?new))) ''a'' = Some c \<and>
              desired ?new ''a'' = Some nc \<and> same_settings c nc"
    unfolding names left by simp_all
  from 2 want have "\<exists>c. map_of (configs (fst (Reconcile (sim_pkg 0) (ex_running 0) ?new))) ''a'' = Some c \<and>
        same_settings c (ex_tunnel ''a'' 1521 1600)"
    by auto
  with hyp 1 show ?thesis by blast
qed

text \<open>
  Claim C1 as stated fails when a removal fails. Tunnel \<open>a\<close> is registered and
  running, its \<^verbatim>\<open>Stop\<close> returns an error, and the new configuration holds only
  \<open>b\<close>: after \<^verbatim>\<open>Reconcile\<close> both \<open>a\<close> and \<open>b\<close> are registered.
\<close>

theorem Reconcile_names_counterexample:
  "set (List (fst (Reconcile (sim_pkg (Suc 0)) (ex_running (Suc 0))
     (ex_config [ex_tunnel ''b'' 1521 1522])))) \<noteq>
   set (map Name (TunnelConfigs (ex_config [ex_tunnel ''b'' 1521 1522])))"
  by (simp add: ex_running_eq sim_defs mgr_defs ex_defs)

lemma Reconcile_settled:
  assumes "(n, nc) \<in> set (newConfigs_of (TunnelConfigs new))"
  shows "case map_of (configs (fst (Reconcile lib m new))) n of
           None \<Rightarrow> True
         | Some c \<Rightarrow> \<not> tunnelConfigChanged c nc"
  using Reconcile_configs_at [OF newConfigs_entry [OF assms], of lib m]
  by (simp add: tunnelConfigChanged_refl split: option.splits)

lemma Reconcile_again:
  assumes "leftover lib m cfg = []"
  shows "Reconcile lib (fst (Reconcile lib m cfg)) cfg = (fst (Reconcile lib m cfg), [])"
proof -
  let ?m1 = "fst (Reconcile lib m cfg)"
  let ?cur = "remdups (List ?m1)" and ?nn = "map Name (TunnelConfigs cfg)"
  let ?ncs = "newConfigs_of (TunnelConfigs cfg)"
  have names: "set (List ?m1) = set ?nn"
    using Reconcile_names [of lib m cfg] assms by simp
  have ssh: "?m1\<lparr>sshConfig := SSH cfg\<rparr> = ?m1"
    using Reconcile_sshConfig [of lib m cfg] by (cases ?m1) simp
  have 1: "reconcile_remove lib ?nn (?m1, []) ?cur = (?m1, [])"
    using names by (intro reconcile_remove_noop) simp
  have 2: "reconcile_add lib ?cur (?m1, []) ?ncs = (?m1, [])"
    using names by (intro reconcile_add_noop) (simp add: newConfigs_keys)
  have 3: "reconcile_update lib ?cur (?m1, []) ?ncs = (?m1, [])"
    using Reconcile_settled [of _ _ cfg lib m] by (intro reconcile_update_noop) blast
  show ?thesis
    unfolding Reconcile_def [of lib ?m1 cfg] Let_def ssh 1 2 3 by (rule refl)
qed

text \<open>
  Claim C4, as amended. When the first \<^verbatim>\<open>Reconcile(cfg)\<close> leaves no name behind
  (no tunnel registered under a name absent from \<open>cfg\<close> is running with a failing
  \<^verbatim>\<open>Stop\<close>), a second \<^verbatim>\<open>Reconcile(cfg)\<close> is a no-op: it logs nothing, so
  it removes, adds and restarts no tunnel, and it returns the manager state unchanged.
\<close>

theorem Reconcile_idempotent:
  assumes "leftover lib m cfg = []"
  shows "Reconcile lib (fst (Reconcile lib m cfg)) cfg = (fst (Reconcile lib m cfg), [])"
  using assms by (rule Reconcile_again)

theorem Reconcile_idempotent_witness:
  "leftover (sim_pkg 0) (ex_running 0)
     (ex_config [ex_tunnel ''a'' 1521 1600, ex_tunnel ''b'' 1521 1522]) = [] \<and>
   Reconcile (sim_pkg 0)
     (fst (Reconcile (sim_pkg 0) (ex_running 0)
        (ex_config [ex_tunnel ''a'' 1521 1600, ex_tunnel ''b'' 1521 1522])))
     (ex_config [ex_tunnel ''a'' 1521 1600, ex_tunnel ''b'' 1521 1522]) =
   (fst (Reconcile (sim_pkg 0) (ex_running 0)
        (ex_config [ex_tunnel ''a'' 1521 1600, ex_tunnel ''b'' 1521 1522])), [])"
proof -
  have left: "leftover (sim_pkg 0) (ex_running 0)
     (ex_config [ex_tunnel ''a'' 1521 1600, ex_tunnel ''b'' 1521 1522]) = []"
    by (simp add: leftover_def ex_running_eq ex_defs List_def)
  from left Reconcile_idempotent [OF left] show ?thesis by (rule conjI)
qed

text \<open>
  Claim C4 as stated fails when a removal fails once and then succeeds. Tunnel \<open>a\<close>
  is running and its first \<^verbatim>\<open>Stop\<close> returns an error: the first
  \<^verbatim>\<open>Reconcile\<close> with a configuration holding only \<open>b\<close> leaves \<open>a\<close>
  registered, and the second call with the same configuration removes it.
\<close>

theorem Reconcile_idempotent_counterexample:
  "List (fst (Reconcile (sim_pkg (Suc 0)) (ex_running (Suc 0))
           (ex_config [ex_tunnel ''b'' 1521 1522]))) = [''a'', ''b''] \<and>
   List (fst (Reconcile (sim_pkg (Suc 0))
           (fst (Reconcile (sim_pkg (Suc 0)) (ex_running (Suc 0))
              (ex_config [ex_tunnel ''b'' 1521 1522])))
           (ex_config [ex_tunnel ''b'' 1521 1522]))) = [''b''] \<and>
   snd (Reconcile (sim_pkg (Suc 0))
           (fst (Reconcile (sim_pkg (Suc 0)) (ex_running (Suc 0))
              (ex_config [ex_tunnel ''b'' 1521 1522])))
           (ex_config [ex_tunnel ''b'' 1521 1522])) = [LogRemoving ''a'']"
proof -
  have first: "Reconcile (sim_pkg (Suc 0)) (ex_running (Suc 0)) (ex_config [ex_tunnel ''b'' 1521 1522]) =
    (\<lparr>sshConfig = ex_ssh,
      tunnels = [(''a'', \<lparr>sim_status = StatusRunning, sim_stop_failures = 0\<rparr>),
                 (''b'', \<lparr>sim_status = StatusRunning, sim_stop_failures = Suc 0\<rparr>)],
      configs = [(''a'', ex_tunnel ''a'' 1521 1521), (''b'', ex_tunnel ''b'' 1521 1522)],
      tunnelDones = [], doneClosed = False\<rparr>,
     [LogRemoving ''a'', LogRemoveFailed ''a'' (StopFailed ''a'' ''stop failed''), LogAdding ''b''])"
    by (simp add: ex_running_eq sim_defs mgr_defs ex_defs)
  show ?thesis
    unfolding first by (simp add: sim_defs mgr_defs ex_defs)
qed

section \<open>The key-set invariant\<close>

lemma consistent_NewManager: "consistent (NewManager c)"
  by (simp add: consistent_def NewManager_def)

lemma consistent_Add: "consistent m \<Longrightarrow> consistent (fst (Add lib m cfg))"
  unfolding consistent_def Add_keys Add_configs_keys Add_tunnelDones by auto

lemma consistent_Remove: "consistent m \<Longrightarrow> consistent (fst (Remove lib m name))"
  unfolding consistent_def Remove_keys Remove_configs_keys Remove_tunnelDones keys_delete
  by auto

lemma consistent_Start: "consistent m \<Longrightarrow> consistent (fst (Start lib m name))"
proof (cases "name \<in> fst ` set (tunnels m)")
  case True
  assume "consistent m"
  with True Start_tunnelDones_keys [of lib m name] show ?thesis
    unfolding consistent_def Start_keys Start_configs by blast
next
  case False
  assume "consistent m"
  then show ?thesis
    unfolding consistent_def Start_keys Start_configs Start_tunnelDones_absent [OF False] .
qed

lemma consistent_Stop: "consistent m \<Longrightarrow> consistent (fst (Stop lib m name))"
  unfolding consistent_def Stop_keys Stop_configs Stop_tunnelDones keys_delete by auto

lemma consistent_Restart: "consistent m \<Longrightarrow> consistent (fst (Restart lib m name))"
  unfolding consistent_def Restart_keys Restart_configs Restart_tunnelDones by blast

lemma consistent_StartAll_loop:
  "consistent m \<Longrightarrow> consistent (fst (StartAll_loop lib m errors names))"
proof (induction names arbitrary: m errors)
  case Nil
  then show ?case by simp
next
  case (Cons name names)
  have "StartAll_loop lib m errors (name # names) =
      StartAll_loop lib (fst (Start lib m name))
        (case snd (Start lib m name) of None \<Rightarrow> errors | Some err \<Rightarrow> AList.update name err errors)
        names"
    by (simp split: prod.splits option.splits)
  with Cons.IH [OF consistent_Start [OF Cons.prems]] show ?case
    by simp
qed

lemma consistent_StartAll: "consistent m \<Longrightarrow> consistent (fst (StartAll lib m))"
  by (simp add: StartAll_def consistent_StartAll_loop)

lemma keys_map_stop:
  "fst ` set (map (\<lambda>(name, tun). (name, f tun)) al) = fst ` set al"
  by (induction al) auto

lemma consistent_StopAll: "consistent m \<Longrightarrow> consistent (fst (StopAll lib m))"
  by (auto simp: consistent_def StopAll_def keys_map_stop simp del: set_map)

lemma consistent_doneClosed [simp]: "consistent (m\<lparr>doneClosed := b\<rparr>) = consistent m"
  by (simp add: consistent_def)

lemma consistent_sshConfig [simp]: "consistent (m\<lparr>sshConfig := s\<rparr>) = consistent m"
  by (simp add: consistent_def)

lemma consistent_Close:
  "consistent m \<Longrightarrow> Close lib m = Returned r \<Longrightarrow> consistent (fst r)"
  using consistent_StopAll [of "m\<lparr>doneClosed := True\<rparr>" lib]
  by (auto simp: Close_def split: if_splits prod.splits)

lemma consistent_reconcile_remove:
  "consistent m \<Longrightarrow> consistent (fst (reconcile_remove lib nn (m, lg) ns))"
proof (induction ns arbitrary: m lg)
  case Nil
  then show ?case by simp
next
  case (Cons name rest)
  from Cons.IH [OF Cons.prems] Cons.IH [OF consistent_Remove [OF Cons.prems]] show ?case
    by (simp add: reconcile_remove_Cons del: reconcile_remove.simps(2))
qed

lemma consistent_reconcile_add:
  "consistent m \<Longrightarrow> consistent (fst (reconcile_add lib cur (m, lg) ncs))"
proof (induction ncs arbitrary: m lg)
  case Nil
  then show ?case by simp
next
  case (Cons a rest)
  obtain name cfg where a: "a = (name, cfg)" by (cases a)
  from Cons.IH [OF Cons.prems] Cons.IH [OF consistent_Add [OF Cons.prems]]
    Cons.IH [OF consistent_Start [OF consistent_Add [OF Cons.prems]]] a
  show ?case
    by (simp add: reconcile_add_Cons del: reconcile_add.simps(2) split: option.splits)
qed

lemma consistent_reconcile_update:
  "consistent m \<Longrightarrow> consistent (fst (reconcile_update lib cur (m, lg) ncs))"
proof (induction ncs arbitrary: m lg)
  case Nil
  then show ?case by simp
next
  case (Cons a rest)
  obtain name nc where a: "a = (name, nc)" by (cases a)
  obtain m' lg' where
    step: "reconcile_update lib cur (m, lg) ((name, nc) # rest) = reconcile_update lib cur (m', lg') rest"
    and keys: "fst ` set (tunnels m') = fst ` set (tunnels m)"
    and ssh: "sshConfig m' = sshConfig m"
    and dones: "tunnelDones m' = tunnelDones m"
    and cfgs: "configs m' =
       (case map_of (configs m) name of
          None \<Rightarrow> configs m
        | Some c \<Rightarrow>
            if name \<in> set cur \<and> tunnelConfigChanged c nc
            then AList.update name nc (configs m) else configs m)"
    by (rule reconcile_update_Cons_step [of lib cur m lg name nc rest])
  have "fst ` set (configs m') = fst ` set (configs m)"
    unfolding cfgs by (simp add: keys_update_present split: option.splits)
  with Cons.prems keys dones have "consistent m'"
    unfolding consistent_def by metis
  from Cons.IH [OF this] show ?case
    unfolding a step .
qed

lemma consistent_Reconcile: "consistent m \<Longrightarrow> consistent (fst (Reconcile lib m new))"
proof -
  assume c: "consistent m"
  obtain m1 lg1 m2 lg2 where
    1: "reconcile_remove lib (map Name (TunnelConfigs new)) (m\<lparr>sshConfig := SSH new\<rparr>, [])
       (remdups (List m)) = (m1, lg1)"
    and 2: "reconcile_add lib (remdups (List m)) (m1, lg1) (newConfigs_of (TunnelConfigs new)) = (m2, lg2)"
    and 3: "Reconcile lib m new =
       reconcile_update lib (remdups (List m)) (m2, lg2) (newConfigs_of (TunnelConfigs new))"
    by (rule Reconcile_phases [of lib new m])
  have "consistent m1"
    using consistent_reconcile_remove [of "m\<lparr>sshConfig := SSH new\<rparr>" lib
        "map Name (TunnelConfigs new)" "[]" "remdups (List m)"] c 1
    by simp
  then have "consistent m2"
    using consistent_reconcile_add [of m1 lib "remdups (List m)" lg1
        "newConfigs_of (TunnelConfigs new)"] 2
    by simp
  then show ?thesis
    unfolding 3 by (rule consistent_reconcile_update)
qed

lemma consistent_exec:
  "consistent m \<Longrightarrow> exec lib m x = Returned m' \<Longrightarrow> consistent m'"
  by (cases x)
    (auto simp: consistent_Add consistent_Remove consistent_Start consistent_Stop
      consistent_Restart consistent_StartAll consistent_StopAll consistent_Reconcile
      split: outcome.splits dest: consistent_Close)

lemma consistent_run: "consistent m \<Longrightarrow> consistent (run lib m xs)"
proof (induction xs arbitrary: m)
  case Nil
  then show ?case by simp
next
  case (Cons x xs)
  show ?case
  proof (cases "exec lib m x")
    case (Returned m')
    with Cons.IH [OF consistent_exec [OF Cons.prems Returned]] show ?thesis
      by simp
  next
    case (Panic msg)
    with Cons.prems show ?thesis by simp
  qed
qed

text \<open>
  Claim C8. Whatever sequence of \<^verbatim>\<open>Add\<close>, \<^verbatim>\<open>Remove\<close>,
  \<^verbatim>\<open>Start\<close>, \<^verbatim>\<open>Stop\<close>, \<^verbatim>\<open>Restart\<close>, \<^verbatim>\<open>StartAll\<close>,
  \<^verbatim>\<open>StopAll\<close>, \<^verbatim>\<open>Reconcile\<close> and \<^verbatim>\<open>Close\<close> calls is made on a
  new manager, one after the other, whatever the tunnel package does, every key of
  \<^verbatim>\<open>tunnelDones\<close> is then a key of \<^verbatim>\<open>tunnels\<close>, and
  \<^verbatim>\<open>tunnels\<close> and \<^verbatim>\<open>configs\<close> have the same keys.
\<close>

theorem manager_maps_consistent:
  "fst ` set (tunnelDones (run lib (NewManager c) ops)) \<subseteq>
     fst ` set (tunnels (run lib (NewManager c) ops)) \<and>
   fst ` set (tunnels (run lib (NewManager c) ops)) =
     fst ` set (configs (run lib (NewManager c) ops))"
  using consistent_run [OF consistent_NewManager, of lib c ops]
  unfolding consistent_def .

theorem manager_maps_consistent_witness:
  "fst ` set (tunnelDones (run (sim_pkg 0) (NewManager ex_ssh)
      [OpAdd (ex_auto_tunnel ''a''), OpStart ''a'', OpRemove ''a'', OpClose])) \<subseteq>
     fst ` set (tunnels (run (sim_pkg 0) (NewManager ex_ssh)
      [OpAdd (ex_auto_tunnel ''a''), OpStart ''a'', OpRemove ''a'', OpClose])) \<and>
   fst ` set (tunnels (run (sim_pkg 0) (NewManager ex_ssh)
      [OpAdd (ex_auto_tunnel ''a''), OpStart ''a'', OpRemove ''a'', OpClose])) =
     fst ` set (configs (run (sim_pkg 0) (NewManager ex_ssh)
      [OpAdd (ex_auto_tunnel ''a''), OpStart ''a'', OpRemove ''a'', OpClose]))"
  by (rule manager_maps_consistent)

section \<open>Add and Remove\<close>

lemma ex_supervised_eq:
  "ex_supervised k =
     \<lparr>sshConfig = ex_ssh,
      tunnels = [(''a'', \<lparr>sim_status = StatusRunning, sim_stop_failures = k\<rparr>)],
      configs = [(''a'', ex_auto_tunnel ''a'')], tunnelDones = [(''a'', 100)],
      doneClosed = False\<rparr>"
  by (simp add: ex_supervised_def sim_defs mgr_defs ex_auto_tunnel_def)

lemma Add_existing:
  "Name cfg \<in> set (List m) \<Longrightarrow> Add lib m cfg = (m, Some (NameInUse (Name cfg)))"
  by (auto simp: Add_def List_def map_of_None_keys split: option.splits
      simp del: map_of_eq_None_iff)

lemma Add_new:
  "Name cfg \<notin> set (List m) \<Longrightarrow>
   Add lib m cfg =
     (m\<lparr>tunnels := AList.update (Name cfg)
          (NewTunnel lib (sshConfig m) (RemoteHost cfg) (RemotePort cfg) (LocalPort cfg)) (tunnels m),
        configs := AList.update (Name cfg) cfg (configs m)\<rparr>, None)"
  by (simp add: Add_def List_def map_of_None_keys Let_def split: option.splits)

text \<open>
  Claim C5. \<^verbatim>\<open>Add\<close> of a registered name returns the name-in-use error and the
  manager unchanged. \<^verbatim>\<open>Add\<close> of a new name succeeds, registers the name with
  the tunnel just constructed (no \<^verbatim>\<open>Start\<close> is applied to it) and with its
  configuration, leaves every other entry and the supervisors as they were, and the
  status of the registered tunnel is Stopped when the tunnel package constructs tunnels
  stopped.
\<close>

theorem Add_contract:
  "(Name cfg \<in> set (List m) \<longrightarrow> Add lib m cfg = (m, Some (NameInUse (Name cfg)))) \<and>
   (Name cfg \<notin> set (List m) \<longrightarrow>
      snd (Add lib m cfg) = None \<and>
      set (List (fst (Add lib m cfg))) = insert (Name cfg) (set (List m)) \<and>
      map_of (tunnels (fst (Add lib m cfg))) (Name cfg) =
        Some (NewTunnel lib (sshConfig m) (RemoteHost cfg) (RemotePort cfg) (LocalPort cfg)) \<and>
      map_of (configs (fst (Add lib m cfg))) (Name cfg) = Some cfg \<and>
      (\<forall>n. n \<noteq> Name cfg \<longrightarrow>
         map_of (tunnels (fst (Add lib m cfg))) n = map_of (tunnels m) n \<and>
         map_of (configs (fst (Add lib m cfg))) n = map_of (configs m) n) \<and>
      tunnelDones (fst (Add lib m cfg)) = tunnelDones m \<and>
      sshConfig (fst (Add lib m cfg)) = sshConfig m \<and>
      doneClosed (fst (Add lib m cfg)) = doneClosed m \<and>
      (tunStatus lib (NewTunnel lib (sshConfig m) (RemoteHost cfg) (RemotePort cfg) (LocalPort cfg))
          = StatusStopped \<longrightarrow>
        map_option (tunStatus lib) (map_of (tunnels (fst (Add lib m cfg))) (Name cfg))
          = Some StatusStopped))"
proof (cases "Name cfg \<in> set (List m)")
  case True
  then show ?thesis by (simp add: Add_existing)
next
  case False
  then show ?thesis
    by (simp add: Add_new update_conv' List_def dom_update)
qed

theorem Add_contract_witness:
  "Add (sim_pkg 0) (ex_supervised 0) (ex_tunnel ''a'' 1521 1521)
     = (ex_supervised 0, Some (NameInUse ''a'')) \<and>
   snd (Add (sim_pkg 0) (ex_supervised 0) (ex_tunnel ''b'' 1521 1522)) = None \<and>
   set (List (fst (Add (sim_pkg 0) (ex_supervised 0) (ex_tunnel ''b'' 1521 1522)))) = {''a'', ''b''} \<and>
   map_option sim_status
     (map_of (tunnels (fst (Add (sim_pkg 0) (ex_supervised 0) (ex_tunnel ''b'' 1521 1522)))) ''b'')
     = Some StatusStopped \<and>
   tunnelDones (fst (Add (sim_pkg 0) (ex_supervised 0) (ex_tunnel ''b'' 1521 1522))) = [(''a'', 100)]"
proof -
  have a: "Name (ex_tunnel ''a'' 1521 1521) \<in> set (List (ex_supervised 0))"
    and b: "Name (ex_tunnel ''b'' 1521 1522) \<notin> set (List (ex_supervised 0))"
    by (simp_all add: ex_supervised_eq List_def ex_tunnel_def)
  have stopped: "tunStatus (sim_pkg 0)
      (NewTunnel (sim_pkg 0) (sshConfig (ex_supervised 0)) (RemoteHost (ex_tunnel ''b'' 1521 1522))
        (RemotePort (ex_tunnel ''b'' 1521 1522)) (LocalPort (ex_tunnel ''b'' 1521 1522)))
      = StatusStopped"
    by (simp add: sim_defs)
  from Add_contract [of "ex_tunnel ''a'' 1521 1521" "ex_supervised 0" "sim_pkg 0"] a
  have 1: "Add (sim_pkg 0) (ex_supervised 0) (ex_tunnel ''a'' 1521 1521)
     = (ex_supervised 0, Some (NameInUse ''a''))"
    by (simp add: ex_tunnel_def)
  from Add_contract [of "ex_tunnel ''b'' 1521 1522" "ex_supervised 0" "sim_pkg 0"] b stopped
  have 2: "snd (Add (sim_pkg 0) (ex_supervised 0) (ex_tunnel ''b'' 1521 1522)) = None"
    and 3: "set (List (fst (Add (sim_pkg 0) (ex_supervised 0) (ex_tunnel ''b'' 1521 1522))))
      = insert (Name (ex_tunnel ''b'' 1521 1522)) (set (List (ex_supervised 0)))"
    and 4: "map_option (tunStatus (sim_pkg 0))
      (map_of (tunnels (fst (Add (sim_pkg 0) (ex_supervised 0) (ex_tunnel ''b'' 1521 1522))))
        (Name (ex_tunnel ''b'' 1521 1522))) = Some StatusStopped"
    and 5: "tunnelDones (fst (Add (sim_pkg 0) (ex_supervised 0) (ex_tunnel ''b'' 1521 1522)))
      = tunnelDones (ex_supervised 0)"
    by blast+
  from 3 have set3: "set (List (fst (Add (sim_pkg 0) (ex_supervised 0) (ex_tunnel ''b'' 1521 1522))))
      = {''a'', ''b''}"
    by (auto simp: ex_supervised_eq List_def ex_tunnel_def)
  from 4 have st4: "map_option sim_status
     (map_of (tunnels (fst (Add (sim_pkg 0) (ex_supervised 0) (ex_tunnel ''b'' 1521 1522)))) ''b'')
     = Some StatusStopped"
    by (simp add: sim_pkg_def ex_tunnel_def)
  from 5 have dn5: "tunnelDones (fst (Add (sim_pkg 0) (ex_supervised 0) (ex_tunnel ''b'' 1521 1522)))
      = [(''a'', 100)]"
    by (simp add: ex_supervised_eq)
  from 1 2 set3 st4 dn5 show ?thesis by blast
qed







text \<open>
  Claim C9. \<^verbatim>\<open>Remove\<close> cancels the supervisor of the name before anything
  else. If the tunnel is running and its \<^verbatim>\<open>Stop\<close> returns an error,
  \<^verbatim>\<open>Remove\<close> returns the stop error, the name is still registered with its
  configuration, and its supervisor entry is gone. If the name is not registered,
  \<^verbatim>\<open>Remove\<close> returns the not-found error, and a supervisor entry under that
  name is gone all the same.
\<close>

theorem Remove_not_atomic:
  "(\<forall>tun tun' err.
      map_of (tunnels m) name = Some tun \<and> tunStatus lib tun = StatusRunning \<and>
      tunStop lib tun = (tun', Some err) \<longrightarrow>
        snd (Remove lib m name) = Some (StopFailed name err) \<and>
        name \<in> set (List (fst (Remove lib m name))) \<and>
        configs (fst (Remove lib m name)) = configs m \<and>
        tunnelDones (fst (Remove lib m name)) = AList.delete name (tunnelDones m) \<and>
        name \<notin> fst ` set (tunnelDones (fst (Remove lib m name)))) \<and>
   (map_of (tunnels m) name = None \<longrightarrow>
      snd (Remove lib m name) = Some (NotFound name) \<and>
      tunnels (fst (Remove lib m name)) = tunnels m \<and>
      configs (fst (Remove lib m name)) = configs m \<and>
      tunnelDones (fst (Remove lib m name)) = AList.delete name (tunnelDones m) \<and>
      name \<notin> fst ` set (tunnelDones (fst (Remove lib m name))))"
  by (auto simp: Remove_def stopAutoRestartForTunnel_eq List_def dom_update keys_delete)

theorem Remove_not_atomic_witness:
  "snd (Remove (sim_pkg (Suc 0)) (ex_supervised (Suc 0)) ''a'')
     = Some (StopFailed ''a'' ''stop failed'') \<and>
   List (fst (Remove (sim_pkg (Suc 0)) (ex_supervised (Suc 0)) ''a'')) = [''a''] \<and>
   configs (fst (Remove (sim_pkg (Suc 0)) (ex_supervised (Suc 0)) ''a''))
     = [(''a'', ex_auto_tunnel ''a'')] \<and>
   tunnelDones (ex_supervised (Suc 0)) = [(''a'', 100)] \<and>
   tunnelDones (fst (Remove (sim_pkg (Suc 0)) (ex_supervised (Suc 0)) ''a'')) = [] \<and>
   snd (Remove (sim_pkg 0) ((NewManager ex_ssh)\<lparr>tunnelDones := [(''ghost'', 100)]\<rparr>) ''ghost'')
     = Some (NotFound ''ghost'') \<and>
   tunnelDones (fst (Remove (sim_pkg 0)
      ((NewManager ex_ssh)\<lparr>tunnelDones := [(''ghost'', 100)]\<rparr>) ''ghost'')) = []"
proof -
  let ?m = "ex_supervised (Suc 0)" and ?lib = "sim_pkg (Suc 0)"
  let ?t = "\<lparr>sim_status = StatusRunning, sim_stop_failures = Suc 0\<rparr>"
  let ?g = "(NewManager ex_ssh :: sim_tunnel Manager)\<lparr>tunnelDones := [(''ghost'', 100)]\<rparr>"
  have pre: "map_of (tunnels ?m) ''a'' = Some ?t \<and> tunStatus ?lib ?t = StatusRunning \<and>
      tunStop ?lib ?t = (\<lparr>sim_status = StatusRunning, sim_stop_failures = 0\<rparr>, Some ''stop failed'')"
    by (simp add: ex_supervised_eq sim_defs)
  have dones: "tunnelDones ?m = [(''a'', 100)]" and cfgs: "configs ?m = [(''a'', ex_auto_tunnel ''a'')]"
    by (simp_all add: ex_supervised_eq)
  from Remove_not_atomic [of ?m "''a''" ?lib] pre
  have 1: "snd (Remove ?lib ?m ''a'') = Some (StopFailed ''a'' ''stop failed'')"
    and 2: "''a'' \<in> set (List (fst (Remove ?lib ?m ''a'')))"
    and 3: "configs (fst (Remove ?lib ?m ''a'')) = configs ?m"
    and 4: "tunnelDones (fst (Remove ?lib ?m ''a'')) = AList.delete ''a'' (tunnelDones ?m)"
    by blast+
  have l: "List (fst (Remove ?lib ?m ''a'')) = [''a'']"
    by (simp add: ex_supervised_eq sim_defs mgr_defs)
  have none: "map_of (tunnels ?g) ''ghost'' = None"
    by (simp add: NewManager_def)
  from Remove_not_atomic [of ?g "''ghost''" "sim_pkg 0"] none
  have 5: "snd (Remove (sim_pkg 0) ?g ''ghost'') = Some (NotFound ''ghost'')"
    and 6: "tunnelDones (fst (Remove (sim_pkg 0) ?g ''ghost'')) = AList.delete ''ghost'' (tunnelDones ?g)"
    by blast+
  from 1 l 3 4 5 6 dones cfgs show ?thesis
    by (simp add: NewManager_def)
qed

section \<open>Close\<close>

lemma Close_again:
  "Close lib m = Returned r \<Longrightarrow> Close lib (fst r) = Panic ''close of closed channel''"
  by (auto simp: Close_def StopAll_def split: if_splits)

text \<open>
  Claim C2 does not hold of the code. A first \<^verbatim>\<open>Close\<close> on a manager with one
  running tunnel returns without error; a second \<^verbatim>\<open>Close\<close> panics, because
  \<^verbatim>\<open>close(m.done)\<close> closes a channel that is already closed.
\<close>

theorem Close_second_call_panics:
  "Close (sim_pkg 0) (ex_running 0) =
     Returned
       (\<lparr>sshConfig = ex_ssh,
         tunnels = [(''a'', \<lparr>sim_status = StatusStopped, sim_stop_failures = 0\<rparr>)],
         configs = [(''a'', ex_tunnel ''a'' 1521 1521)], tunnelDones = [], doneClosed = True\<rparr>,
        None) \<and>
   Close (sim_pkg 0)
     \<lparr>sshConfig = ex_ssh,
      tunnels = [(''a'', \<lparr>sim_status = StatusStopped, sim_stop_failures = 0\<rparr>)],
      configs = [(''a'', ex_tunnel ''a'' 1521 1521)], tunnelDones = [], doneClosed = True\<rparr>
     = Panic ''close of closed channel''"
  by (simp add: ex_running_eq Close_def StopAll_def sim_defs List.map_filter_def)

section \<open>The watcher's reload\<close>

lemma Load_fails_iff:
  "(\<exists>err. Load deps path = Inl err) \<longleftrightarrow>
     (\<exists>e. ReadFile deps path = Inl e) \<or>
     (\<exists>data e. ReadFile deps path = Inr data \<and>
        yaml_Unmarshal deps (ExpandEnv deps data) = Inl e) \<or>
     (\<exists>data cfg e. ReadFile deps path = Inr data \<and>
        yaml_Unmarshal deps (ExpandEnv deps data) = Inr cfg \<and>
        Validate (ssh_Validate deps) cfg = Some e)"
  by (auto simp: Load_def split: sum.splits option.splits)

lemma reload_failed: "Load deps path = Inl err \<Longrightarrow> reload deps lib path m = (m, LogInvalidConfig err)"
  by (simp add: reload_def)

lemma reload_loaded:
  "Load deps path = Inr cfg \<Longrightarrow>
   reload deps lib path m = (fst (Reconcile lib m cfg), LogReconcile (snd (Reconcile lib m cfg)))"
  by (simp add: reload_def split: prod.splits)

text \<open>
  Claim C3. Loading fails exactly when reading the file, parsing the expanded text or
  validating the parsed configuration fails. When loading fails, \<^verbatim>\<open>reload\<close>
  returns the manager it was given, with all its fields, and logs the load error;
  \<^verbatim>\<open>Reconcile\<close> runs, on the loaded configuration, only when loading succeeds.
\<close>

theorem reload_keeps_state_on_failure:
  "((\<exists>err. Load deps path = Inl err) \<longleftrightarrow>
      (\<exists>e. ReadFile deps path = Inl e) \<or>
      (\<exists>data e. ReadFile deps path = Inr data \<and>
         yaml_Unmarshal deps (ExpandEnv deps data) = Inl e) \<or>
      (\<exists>data cfg e. ReadFile deps path = Inr data \<and>
         yaml_Unmarshal deps (ExpandEnv deps data) = Inr cfg \<and>
         Validate (ssh_Validate deps) cfg = Some e)) \<and>
   (\<forall>err. Load deps path = Inl err \<longrightarrow> reload deps lib path m = (m, LogInvalidConfig err)) \<and>
   (\<forall>cfg. Load deps path = Inr cfg \<longrightarrow>
      reload deps lib path m =
        (fst (Reconcile lib m cfg), LogReconcile (snd (Reconcile lib m cfg)))) \<and>
   (\<forall>lg. snd (reload deps lib path m) = LogReconcile lg \<longrightarrow>
      (\<exists>cfg. Load deps path = Inr cfg \<and> Reconcile lib m cfg = (fst (reload deps lib path m), lg)))"
proof -
  have "\<exists>cfg. Load deps path = Inr cfg \<and> Reconcile lib m cfg = (fst (reload deps lib path m), lg)"
    if "snd (reload deps lib path m) = LogReconcile lg" for lg
    using that by (cases "Load deps path") (auto simp: reload_def split: prod.splits)
  with Load_fails_iff [of deps path] reload_failed [of deps path _ lib m]
    reload_loaded [of deps path _ lib m]
  show ?thesis by blast
qed

theorem reload_keeps_state_on_failure_witness:
  "Load (ex_deps ''tunnels: []'') ''config.yaml'' = Inl (InvalidConfig NoTunnels) \<and>
   reload (ex_deps ''tunnels: []'') (sim_pkg 0) ''config.yaml'' (ex_supervised 0)
     = (ex_supervised 0, LogInvalidConfig (InvalidConfig NoTunnels)) \<and>
   reload (ex_deps ''tunnels: ['') (sim_pkg 0) ''config.yaml'' (ex_supervised 0)
     = (ex_supervised 0, LogInvalidConfig (ParseFailed ''yaml: unmarshal error'')) \<and>
   reload (ex_deps ''tunnels: []'') (sim_pkg 0) ''missing.yaml'' (ex_supervised 0)
     = (ex_supervised 0, LogInvalidConfig (ReadFailed ''no such file or directory'')) \<and>
   Load (ex_deps ''tunnels: [b]'') ''config.yaml'' = Inr (ex_config [ex_tunnel ''b'' 1521 1522]) \<and>
   List (fst (reload (ex_deps ''tunnels: [b]'') (sim_pkg 0) ''config.yaml'' (ex_supervised 0)))
     = [''b'']"
proof -
  let ?m = "ex_supervised 0" and ?lib = "sim_pkg 0"
  have l1: "Load (ex_deps ''tunnels: []'') ''config.yaml'' = Inl (InvalidConfig NoTunnels)"
    by (simp add: Load_def ex_deps_def ex_ReadFile_def ex_Unmarshal_def ex_identity_def
        Validate_def ssh_Validate_model_def ex_defs)
  have l2: "Load (ex_deps ''tunnels: ['') ''config.yaml'' = Inl (ParseFailed ''yaml: unmarshal error'')"
    by (simp add: Load_def ex_deps_def ex_ReadFile_def ex_Unmarshal_def ex_identity_def)
  have l3: "Load (ex_deps ''tunnels: []'') ''missing.yaml''
      = Inl (ReadFailed ''no such file or directory'')"
    by (simp add: Load_def ex_deps_def ex_ReadFile_def)
  have l4: "Load (ex_deps ''tunnels: [b]'') ''config.yaml'' = Inr (ex_config [ex_tunnel ''b'' 1521 1522])"
    by (simp add: Load_def ex_deps_def ex_ReadFile_def ex_Unmarshal_def ex_identity_def
        Validate_def ssh_Validate_model_def ex_defs)
  from reload_keeps_state_on_failure [of "ex_deps ''tunnels: []''" "''config.yaml''" ?lib ?m] l1
  have r1: "reload (ex_deps ''tunnels: []'') ?lib ''config.yaml'' ?m
      = (?m, LogInvalidConfig (InvalidConfig NoTunnels))"
    by blast
  from reload_keeps_state_on_failure [of "ex_deps ''tunnels: [''" "''config.yaml''" ?lib ?m] l2
  have r2: "reload (ex_deps ''tunnels: ['') ?lib ''config.yaml'' ?m
      = (?m, LogInvalidConfig (ParseFailed ''yaml: unmarshal error''))"
    by blast
  from reload_keeps_state_on_failure [of "ex_deps ''tunnels: []''" "''missing.yaml''" ?lib ?m] l3
  have r3: "reload (ex_deps ''tunnels: []'') ?lib ''missing.yaml'' ?m
      = (?m, LogInvalidConfig (ReadFailed ''no such file or directory''))"
    by blast
  from reload_keeps_state_on_failure [of "ex_deps ''tunnels: [b]''" "''config.yaml''" ?lib ?m] l4
  have "reload (ex_deps ''tunnels: [b]'') ?lib ''config.yaml'' ?m
      = (fst (Reconcile ?lib ?m (ex_config [ex_tunnel ''b'' 1521 1522])),
         LogReconcile (snd (Reconcile ?lib ?m (ex_config [ex_tunnel ''b'' 1521 1522]))))"
    by blast
  then have r4: "List (fst (reload (ex_deps ''tunnels: [b]'') ?lib ''config.yaml'' ?m)) = [''b'']"
    by (simp add: ex_supervised_eq sim_defs mgr_defs ex_defs)
  from l1 r1 r2 r3 l4 r4 show ?thesis by blast
qed

section \<open>Environment expansion: proofs\<close>

lemma Expand_plain: "CHR ''$'' \<notin> set pre \<Longrightarrow> Expand (pre @ s) mapping = pre @ Expand s mapping"
  by (induction pre) auto

lemma takeWhile_until:
  "x \<notin> set name \<Longrightarrow> takeWhile (\<lambda>y. y \<noteq> x) (name @ x # post) = name"
  by (induction name) auto

lemma getShellName_braces:
  assumes "name \<noteq> []" and "CHR ''}'' \<notin> set name"
  shows "getShellName (CHR ''{'' # name @ CHR ''}'' # post) = (name, length name + 2)"
proof (cases "isShellSpecialVar (hd name) \<and> (name @ CHR ''}'' # post) ! 1 = CHR ''}''")
  case True
  obtain c cs where name: "name = c # cs"
    using assms(1) by (cases name) auto
  with True assms(2) have "cs = []"
    by (cases cs) auto
  with True name show ?thesis
    by simp
next
  case False
  obtain c cs where name: "name = c # cs"
    using assms(1) by (cases name) auto
  have tw: "takeWhile (\<lambda>x. x \<noteq> CHR ''}'') (name @ CHR ''}'' # post) = name"
    using assms(2) by (rule takeWhile_until)
  have hd: "(name @ CHR ''}'' # post) ! 0 = hd name"
    using name by simp
  from False assms(1) show ?thesis
    unfolding getShellName.simps tw hd Let_def by auto
qed

lemma Expand_braces:
  assumes "name \<noteq> []" and "CHR ''}'' \<notin> set name"
  shows "Expand (''${'' @ name @ ''}'' @ post) mapping = mapping name @ Expand post mapping"
proof -
  have "Expand (CHR ''$'' # CHR ''{'' # name @ CHR ''}'' # post) mapping =
      mapping name @ Expand (drop (length name + 2) (CHR ''{'' # name @ CHR ''}'' # post)) mapping"
    using assms(1) by (simp add: getShellName_braces [OF assms] del: getShellName.simps)
  then show ?thesis by simp
qed

lemma isAlphaNum_not_brace: "isAlphaNum c \<Longrightarrow> c \<noteq> CHR ''{''"
  by (auto simp: isAlphaNum_def)

lemma takeWhile_name:
  assumes "list_all P name" and "case post of [] \<Rightarrow> True | c # cs \<Rightarrow> \<not> P c"
  shows "takeWhile P (name @ post) = name"
proof -
  have "takeWhile P post = []"
    using assms(2) by (cases post) auto
  with assms(1) show ?thesis
    by (simp add: list_all_iff takeWhile_append2)
qed

lemma getShellName_bare:
  assumes "name \<noteq> []" and "list_all isAlphaNum name" and "\<not> isShellSpecialVar (hd name)"
    and "case post of [] \<Rightarrow> True | c # cs \<Rightarrow> \<not> isAlphaNum c"
  shows "getShellName (name @ post) = (name, length name)"
proof -
  obtain c cs where name: "name = c # cs"
    using assms(1) by (cases name) auto
  have c: "c \<noteq> CHR ''{''" "\<not> isShellSpecialVar c"
    using assms(2,3) name by (auto dest: isAlphaNum_not_brace)
  have "takeWhile isAlphaNum (c # cs @ post) = c # cs"
    using takeWhile_name [OF assms(2) assms(4)] name by simp
  with c show ?thesis
    unfolding name by (simp del: takeWhile.simps)
qed

lemma Expand_bare:
  assumes "name \<noteq> []" and "list_all isAlphaNum name" and "\<not> isShellSpecialVar (hd name)"
    and "case post of [] \<Rightarrow> True | c # cs \<Rightarrow> \<not> isAlphaNum c"
  shows "Expand ((CHR ''$'' # name) @ post) mapping = mapping name @ Expand post mapping"
  using assms(1) by (simp add: getShellName_bare [OF assms] del: getShellName.simps)

lemma Expand_reference:
  "is_reference ref name post \<Longrightarrow>
   Expand (ref @ post) mapping = mapping name @ Expand post mapping"
  using Expand_braces [of name post mapping] Expand_bare [of name post mapping]
  by (auto simp: is_reference_def simp del: Expand.simps)

lemma takeWhile_stop:
  "s = [] \<or> \<not> P (hd s) \<Longrightarrow> takeWhile P (xs @ s) = takeWhile P xs"
  by (induction xs) (auto simp: takeWhile_eq_Nil_iff)

lemma getShellName_bound: "rest \<noteq> [] \<Longrightarrow> snd (getShellName rest) \<le> length rest"
proof (cases rest)
  case Nil
  assume "rest \<noteq> []"
  with Nil show ?thesis by simp
next
  case (Cons c r)
  have "length (takeWhile (\<lambda>x. x \<noteq> CHR ''}'') r) \<le> length r"
    by (rule length_takeWhile_le)
  moreover have "length (takeWhile isAlphaNum (c # r)) \<le> length (c # r)"
    by (rule length_takeWhile_le)
  moreover have "r = [] \<or> Suc 0 \<le> length r"
    by (cases r) auto
  ultimately show ?thesis
    unfolding Cons by (auto simp: Let_def simp del: takeWhile.simps)
qed

lemma getShellName_append:
  assumes "rest \<noteq> []"
    and "hd rest = CHR ''{'' \<longrightarrow> CHR ''}'' \<in> set (tl rest)"
    and "s = [] \<or> \<not> isAlphaNum (hd s)"
  shows "getShellName (rest @ s) = getShellName rest"
proof -
  obtain c r where rest: "rest = c # r"
    using assms(1) by (cases rest) auto
  show ?thesis
  proof (cases "c = CHR ''{''")
    case True
    with assms(2) rest have mem: "CHR ''}'' \<in> set r"
      by simp
    then obtain x xs where r: "r = x # xs"
      by (cases r) auto
    have tw: "takeWhile (\<lambda>y. y \<noteq> CHR ''}'') (r @ s) = takeWhile (\<lambda>y. y \<noteq> CHR ''}'') r"
      using mem by (simp add: takeWhile_append1)
    have short: "length (takeWhile (\<lambda>y. y \<noteq> CHR ''}'') r) < length r"
      using mem by (induction r) auto
    have n0: "(r @ s) ! 0 = r ! 0"
      using r by simp
    have "getShellName (c # r @ s) = getShellName (c # r)"
    proof (cases "Suc 0 < length r")
      case long: True
      then have n1: "(r @ s) ! Suc 0 = r ! Suc 0"
        by (simp add: nth_append)
      show ?thesis
        unfolding getShellName.simps tw Let_def n0 using True short long n1 by auto
    next
      case False
      with mem r have "\<not> isShellSpecialVar (r ! 0)"
        by (cases xs) (auto simp: isShellSpecialVar_def)
      then show ?thesis
        unfolding getShellName.simps tw Let_def n0 using True short by auto
    qed
    then show ?thesis
      unfolding rest by simp
  next
    case False
    have "takeWhile isAlphaNum ((c # r) @ s) = takeWhile isAlphaNum (c # r)"
      using assms(3) by (rule takeWhile_stop)
    then have "takeWhile isAlphaNum (c # r @ s) = takeWhile isAlphaNum (c # r)"
      by simp
    then have "getShellName (c # r @ s) = getShellName (c # r)"
      unfolding getShellName.simps Let_def using False by simp
    then show ?thesis
      unfolding rest by simp
  qed
qed

lemma Expand_closed:
  "closed_text pre \<Longrightarrow> s = [] \<or> \<not> isAlphaNum (hd s) \<Longrightarrow>
   Expand (pre @ s) mapping = Expand pre mapping @ Expand s mapping"
proof (induction pre rule: closed_text.induct)
  case 1
  show ?case by simp
next
  case (2 c rest)
  show ?case
  proof (cases "c = CHR ''$''")
    case False
    with 2 show ?thesis by simp
  next
    case True
    with "2.prems"(1) have ne: "rest \<noteq> []"
      and br: "hd rest = CHR ''{'' \<longrightarrow> CHR ''}'' \<in> set (tl rest)"
      and cl: "closed_text (drop (snd (getShellName rest)) rest)"
      by simp_all
    obtain name w where g: "getShellName rest = (name, w)"
      by (cases "getShellName rest")
    have g': "getShellName (rest @ s) = (name, w)"
      using getShellName_append [OF ne br "2.prems"(2)] g by simp
    have w: "w \<le> length rest"
      using getShellName_bound [OF ne] g by simp
    have IH: "Expand (drop w rest @ s) mapping = Expand (drop w rest) mapping @ Expand s mapping"
      using "2.IH"(1) [OF True] cl "2.prems"(2) g by simp
    have "Expand (c # rest @ s) mapping =
        (if name = [] \<and> w > 0 then [] else if name = [] then [c] else mapping name) @
        Expand (drop w rest @ s) mapping"
      using True ne g' w by (simp del: getShellName.simps)
    moreover have "Expand (c # rest) mapping =
        (if name = [] \<and> w > 0 then [] else if name = [] then [c] else mapping name) @
        Expand (drop w rest) mapping"
      using True ne g by (simp del: getShellName.simps)
    ultimately show ?thesis
      unfolding IH by simp
  qed
qed

lemma closed_text_plain: "CHR ''$'' \<notin> set pre \<Longrightarrow> closed_text pre"
  by (induction pre) auto

lemma reference_starts: "is_reference ref name post \<Longrightarrow> ref @ post = [] \<or> \<not> isAlphaNum (hd (ref @ post))"
  by (auto simp: is_reference_def isAlphaNum_def)

lemma ExpandEnv_reference:
  assumes "closed_text pre" and "is_reference ref name post"
  shows "os_ExpandEnv environ (pre @ ref @ post) =
     os_ExpandEnv environ pre @ Getenv environ name @ os_ExpandEnv environ post"
  unfolding os_ExpandEnv_def
  using Expand_closed [OF assms(1) reference_starts [OF assms(2)], of "Getenv environ"]
    Expand_reference [OF assms(2), of "Getenv environ"]
  by (simp del: Expand.simps)

lemma ExpandEnv_plain: "CHR ''$'' \<notin> set pre \<Longrightarrow> os_ExpandEnv environ pre = pre"
  using Expand_plain [of pre "[]" "Getenv environ"] by (simp add: os_ExpandEnv_def)

lemma Getenv_unset:
  "environ name = None \<Longrightarrow> Getenv (environ(name \<mapsto> [])) = Getenv environ"
  by (auto simp: Getenv_def fun_eq_iff)

lemma closed_text_append:
  "closed_text pre \<Longrightarrow> s = [] \<or> \<not> isAlphaNum (hd s) \<Longrightarrow> closed_text s \<Longrightarrow>
   closed_text (pre @ s)"
proof (induction pre rule: closed_text.induct)
  case 1
  then show ?case by simp
next
  case (2 c rest)
  show ?case
  proof (cases "c = CHR ''$''")
    case False
    with 2 show ?thesis by simp
  next
    case True
    with "2.prems"(1) have ne: "rest \<noteq> []"
      and br: "hd rest = CHR ''{'' \<longrightarrow> CHR ''}'' \<in> set (tl rest)"
      and cl: "closed_text (drop (snd (getShellName rest)) rest)"
      by simp_all
    have g: "getShellName (rest @ s) = getShellName rest"
      by (rule getShellName_append [OF ne br "2.prems"(2)])
    have w: "snd (getShellName rest) \<le> length rest"
      by (rule getShellName_bound [OF ne])
    have "closed_text (drop (snd (getShellName rest)) rest @ s)"
      using "2.IH"(1) [OF True] cl "2.prems"(2,3) by simp
    then have "closed_text (drop (snd (getShellName (rest @ s))) (rest @ s))"
      unfolding g using w by simp
    moreover have "hd (rest @ s) = CHR ''{'' \<longrightarrow> CHR ''}'' \<in> set (tl (rest @ s))"
      using ne br by auto
    ultimately show ?thesis
      using True ne by (simp del: getShellName.simps)
  qed
qed

lemma closed_text_reference:
  assumes "is_reference ref name post"
  shows "closed_text ref"
proof -
  from assms have ne: "name \<noteq> []"
    by (simp add: is_reference_def)
  from assms consider
    (braces) "ref = CHR ''$'' # CHR ''{'' # name @ ''}''" "CHR ''}'' \<notin> set name"
    | (bare) "ref = CHR ''$'' # name" "list_all isAlphaNum name" "\<not> isShellSpecialVar (hd name)"
    by (auto simp: is_reference_def)
  then show ?thesis
  proof cases
    case braces
    have "getShellName (CHR ''{'' # name @ ''}'') = (name, length name + 2)"
      using getShellName_braces [OF ne braces(2), of "[]"] by simp
    then show ?thesis
      unfolding braces(1) by (simp del: getShellName.simps)
  next
    case bare
    have "getShellName name = (name, length name)"
      using getShellName_bare [OF ne bare(2,3), of "[]"] by simp
    moreover have "hd name \<noteq> CHR ''{''"
      using bare(2) ne by (cases name) (auto dest: isAlphaNum_not_brace)
    ultimately show ?thesis
      unfolding bare(1) using ne by (simp del: getShellName.simps)
  qed
qed

lemma closed_text_extended:
  assumes "closed_text pre" and "is_reference ref name post"
  shows "closed_text (pre @ ref)"
proof -
  have "ref = [] \<or> \<not> isAlphaNum (hd ref)"
    using assms(2) by (auto simp: is_reference_def isAlphaNum_def)
  then show ?thesis
    using closed_text_append [OF assms(1)] closed_text_reference [OF assms(2)] by blast
qed

text \<open>
  Claim C10, as amended. \<^verbatim>\<open>Load\<close> expands the raw text before it is parsed, and
  the expansion has no error result. A reference \<^verbatim>\<open>${name}\<close> or \<^verbatim>\<open>$name\<close>
  that follows a closed text is replaced by the empty string when the variable is not
  set, and by the value of the variable when it is set; the text before it and the text
  after it are expanded on their own. A text without dollar signs is closed and is left
  as it is, and a closed text followed by a reference is closed again, so that this holds
  for each of several references in a text. A variable that is not set expands, in every
  text, exactly as if it were set to the empty string. A file that cannot be read is the
  only failure before the expansion; for a readable file the outcome of \<^verbatim>\<open>Load\<close>
  is decided by the YAML decoder and then by the validation, both on the expanded text:
  a file with a reference to a variable that is not set is decoded with the reference
  erased, and it is the decoder or the validation that can reject it.
\<close>

theorem Load_expands_environment:
  assumes "ExpandEnv deps = os_ExpandEnv environ"
  shows "(\<forall>pre ref name post.
            closed_text pre \<and> is_reference ref name post \<and> environ name = None \<longrightarrow>
            os_ExpandEnv environ (pre @ ref @ post)
              = os_ExpandEnv environ pre @ os_ExpandEnv environ post) \<and>
         (\<forall>pre ref name post v.
            closed_text pre \<and> is_reference ref name post \<and> environ name = Some v \<longrightarrow>
            os_ExpandEnv environ (pre @ ref @ post)
              = os_ExpandEnv environ pre @ v @ os_ExpandEnv environ post) \<and>
         (\<forall>s. CHR ''$'' \<notin> set s \<longrightarrow> closed_text s \<and> os_ExpandEnv environ s = s) \<and>
         (\<forall>pre ref name post.
            closed_text pre \<and> is_reference ref name post \<longrightarrow> closed_text (pre @ ref)) \<and>
         (\<forall>s name. environ name = None \<longrightarrow>
            os_ExpandEnv (environ(name \<mapsto> [])) s = os_ExpandEnv environ s) \<and>
         (\<forall>err. ReadFile deps path = Inl err \<longrightarrow> Load deps path = Inl (ReadFailed err)) \<and>
         (\<forall>data. ReadFile deps path = Inr data \<longrightarrow>
            Load deps path =
              (case yaml_Unmarshal deps (os_ExpandEnv environ data) of
                 Inl err \<Rightarrow> Inl (ParseFailed err)
               | Inr cfg \<Rightarrow>
                   (case Validate (ssh_Validate deps) cfg of
                      Some err \<Rightarrow> Inl (InvalidConfig err)
                    | None \<Rightarrow> Inr cfg))) \<and>
         (\<forall>pre ref name post.
            ReadFile deps path = Inr (pre @ ref @ post) \<and>
            closed_text pre \<and> is_reference ref name post \<and> environ name = None \<longrightarrow>
            Load deps path =
              (case yaml_Unmarshal deps (os_ExpandEnv environ pre @ os_ExpandEnv environ post) of
                 Inl err \<Rightarrow> Inl (ParseFailed err)
               | Inr cfg \<Rightarrow>
                   (case Validate (ssh_Validate deps) cfg of
                      Some err \<Rightarrow> Inl (InvalidConfig err)
                    | None \<Rightarrow> Inr cfg)))"
proof -
  have unset: "os_ExpandEnv environ (pre @ ref @ post)
      = os_ExpandEnv environ pre @ os_ExpandEnv environ post"
    if "closed_text pre" and "is_reference ref name post" and "environ name = None"
    for pre ref name post
    using ExpandEnv_reference [OF that(1,2), of environ] that(3) by (simp add: Getenv_def)
  have is_set: "os_ExpandEnv environ (pre @ ref @ post)
      = os_ExpandEnv environ pre @ v @ os_ExpandEnv environ post"
    if "closed_text pre" and "is_reference ref name post" and "environ name = Some v"
    for pre ref name post v
    using ExpandEnv_reference [OF that(1,2), of environ] that(3) by (simp add: Getenv_def)
  have plain: "closed_text s \<and> os_ExpandEnv environ s = s" if "CHR ''$'' \<notin> set s" for s
    using closed_text_plain [OF that] ExpandEnv_plain [OF that] by simp
  have empty: "os_ExpandEnv (environ(name \<mapsto> [])) s = os_ExpandEnv environ s"
    if "environ name = None" for s name
    unfolding os_ExpandEnv_def using Getenv_unset [of environ name] that by simp
  have unreadable: "Load deps path = Inl (ReadFailed err)"
    if "ReadFile deps path = Inl err" for err
    using that by (simp add: Load_def)
  have readable: "Load deps path =
      (case yaml_Unmarshal deps (os_ExpandEnv environ data) of
         Inl err \<Rightarrow> Inl (ParseFailed err)
       | Inr cfg \<Rightarrow>
           (case Validate (ssh_Validate deps) cfg of
              Some err \<Rightarrow> Inl (InvalidConfig err)
            | None \<Rightarrow> Inr cfg))"
    if "ReadFile deps path = Inr data" for data
    using that assms by (simp add: Load_def)
  have erased: "Load deps path =
      (case yaml_Unmarshal deps (os_ExpandEnv environ pre @ os_ExpandEnv environ post) of
         Inl err \<Rightarrow> Inl (ParseFailed err)
       | Inr cfg \<Rightarrow>
           (case Validate (ssh_Validate deps) cfg of
              Some err \<Rightarrow> Inl (InvalidConfig err)
            | None \<Rightarrow> Inr cfg))"
    if "ReadFile deps path = Inr (pre @ ref @ post)" and "closed_text pre"
      and "is_reference ref name post" and "environ name = None"
    for pre ref name post
    using readable [OF that(1)] unfolding unset [OF that(2,3,4)] .
  show ?thesis
    apply (intro conjI allI impI)
    subgoal for pre ref name post using unset [of pre ref name post] by simp
    subgoal for pre ref name post v using is_set [of pre ref name post v] by simp
    subgoal for s using plain [of s] by simp
    subgoal for s using plain [of s] by simp
    subgoal for pre ref name post
      using closed_text_extended [of pre ref name post] by simp
    subgoal for s name using empty [of name s] by simp
    subgoal for err using unreadable [of err] by simp
    subgoal for data using readable [of data] by simp
    subgoal for pre ref name post
      using erased [where pre = pre and ref = ref and name = name and post = post] by simp
    done
qed

theorem Load_expands_environment_witness:
  "ex_environ ''SSH_PASSWORD'' = None \<and>
   ex_environ ''HOME'' = Some ''/root'' \<and>
   is_reference ''${SSH_PASSWORD}'' ''SSH_PASSWORD'' [] \<and>
   is_reference ''$SSH_PASSWORD'' ''SSH_PASSWORD'' [] \<and>
   is_reference ''${HOME}'' ''HOME'' '' password: '' \<and>
   closed_text ''home: ${HOME} password: '' \<and>
   os_ExpandEnv ex_environ ''password: ${SSH_PASSWORD}'' = ''password: '' \<and>
   os_ExpandEnv ex_environ ''password: $SSH_PASSWORD'' = ''password: '' \<and>
   os_ExpandEnv ex_environ ''home: ${HOME} password: '' = ''home: /root password: '' \<and>
   os_ExpandEnv ex_environ ''home: ${HOME} password: ${SSH_PASSWORD}''
     = ''home: /root password: '' \<and>
   os_ExpandEnv (ex_environ(''SSH_PASSWORD'' \<mapsto> [])) ''password: ${SSH_PASSWORD}''
     = ''password: '' \<and>
   Load (ex_env_deps ''password: ${SSH_PASSWORD}'') ''missing.yaml''
     = Inl (ReadFailed ''no such file or directory'') \<and>
   Load (ex_env_deps ''password: ${SSH_PASSWORD}'') ''config.yaml''
     = Inl (InvalidConfig (SSHInvalid ''password or keyFile is required'')) \<and>
   Load (ex_env_deps ''password: $SSH_PASSWORD'') ''config.yaml''
     = Inl (InvalidConfig (SSHInvalid ''password or keyFile is required''))"
proof -
  let ?pre = "''password: ''" and ?name = "''SSH_PASSWORD''"
  let ?home = "''home: ${HOME} password: ''"
  have unset: "ex_environ ?name = None"
    by (simp add: ex_environ_def)
  have home: "ex_environ ''HOME'' = Some ''/root''"
    by (simp add: ex_environ_def)
  have braces: "is_reference ''${SSH_PASSWORD}'' ?name []"
    by (simp add: is_reference_def)
  have bare: "is_reference ''$SSH_PASSWORD'' ?name []"
    by (simp add: is_reference_def isAlphaNum_def isShellSpecialVar_def)
  have ref_home: "is_reference ''${HOME}'' ''HOME'' '' password: ''"
    by (simp add: is_reference_def)
  have env: "ExpandEnv (ex_env_deps doc) = os_ExpandEnv ex_environ" for doc
    by (simp add: ex_env_deps_def)
  have content: "ReadFile (ex_env_deps doc) ''config.yaml'' = Inr doc" for doc
    by (simp add: ex_env_deps_def ex_ReadFile_def)
  have missing: "ReadFile (ex_env_deps doc) ''missing.yaml'' = Inl ''no such file or directory''"
    for doc
    by (simp add: ex_env_deps_def ex_ReadFile_def)
  have rejected: "(case yaml_Unmarshal (ex_env_deps doc) ''password: '' of
              Inl err \<Rightarrow> Inl (ParseFailed err)
            | Inr cfg \<Rightarrow>
                (case Validate (ssh_Validate (ex_env_deps doc)) cfg of
                   Some err \<Rightarrow> Inl (InvalidConfig err)
                 | None \<Rightarrow> Inr cfg))
      = Inl (InvalidConfig (SSHInvalid ''password or keyFile is required''))" for doc
    by (simp add: ex_env_deps_def ex_Unmarshal_password_def Validate_def ssh_Validate_model_def
        ex_ssh_def)
  note t1 = Load_expands_environment
    [of "ex_env_deps ''password: ${SSH_PASSWORD}''" ex_environ "''config.yaml''", OF env]
  note t2 = Load_expands_environment
    [of "ex_env_deps ''password: $SSH_PASSWORD''" ex_environ "''config.yaml''", OF env]
  note t3 = Load_expands_environment
    [of "ex_env_deps ''password: ${SSH_PASSWORD}''" ex_environ "''missing.yaml''", OF env]
  note rest = conjunct2
  note unset_ref = t1 [THEN conjunct1, rule_format]
  note set_ref = t1 [THEN rest, THEN conjunct1, rule_format]
  note plain = t1 [THEN rest, THEN rest, THEN conjunct1, rule_format]
  note extended = t1 [THEN rest, THEN rest, THEN rest, THEN conjunct1, rule_format]
  note as_empty = t1 [THEN rest, THEN rest, THEN rest, THEN rest, THEN conjunct1, rule_format]
  note unreadable =
    t3 [THEN rest, THEN rest, THEN rest, THEN rest, THEN rest, THEN conjunct1, rule_format]
  note readable =
    t2 [THEN rest, THEN rest, THEN rest, THEN rest, THEN rest, THEN rest, THEN conjunct1,
      rule_format]
  note erased =
    t1 [THEN rest, THEN rest, THEN rest, THEN rest, THEN rest, THEN rest, THEN rest,
      rule_format]
  have p1: "closed_text ?pre" and p2: "os_ExpandEnv ex_environ ?pre = ?pre"
    using plain [of ?pre] by simp_all
  have p3: "closed_text ''home: ''" and p4: "os_ExpandEnv ex_environ ''home: '' = ''home: ''"
    using plain [of "''home: ''"] by simp_all
  have p5: "os_ExpandEnv ex_environ '' password: '' = '' password: ''"
    using plain [of "'' password: ''"] by simp
  have p6: "os_ExpandEnv ex_environ [] = []"
    using plain [of "[]"] by simp
  have "os_ExpandEnv ex_environ (?pre @ ''${SSH_PASSWORD}'' @ [])
      = os_ExpandEnv ex_environ ?pre @ os_ExpandEnv ex_environ []"
    by (rule unset_ref [OF conjI [OF p1 conjI [OF braces unset]]])
  then have e1: "os_ExpandEnv ex_environ ''password: ${SSH_PASSWORD}'' = ''password: ''"
    unfolding p2 p6 by simp
  have "os_ExpandEnv ex_environ (?pre @ ''$SSH_PASSWORD'' @ [])
      = os_ExpandEnv ex_environ ?pre @ os_ExpandEnv ex_environ []"
    by (rule unset_ref [OF conjI [OF p1 conjI [OF bare unset]]])
  then have e2: "os_ExpandEnv ex_environ ''password: $SSH_PASSWORD'' = ''password: ''"
    unfolding p2 p6 by simp
  have "os_ExpandEnv ex_environ (''home: '' @ ''${HOME}'' @ '' password: '')
      = os_ExpandEnv ex_environ ''home: '' @ ''/root'' @ os_ExpandEnv ex_environ '' password: ''"
    by (rule set_ref [OF conjI [OF p3 conjI [OF ref_home home]]])
  then have e3: "os_ExpandEnv ex_environ ?home = ''home: /root password: ''"
    unfolding p4 p5 by simp
  have "closed_text (''home: '' @ ''${HOME}'')"
    by (rule extended [OF conjI [OF p3 ref_home]])
  moreover have "closed_text '' password: ''"
    using plain [of "'' password: ''"] by simp
  ultimately have closed: "closed_text ?home"
    using closed_text_append [of "''home: ${HOME}''" "'' password: ''"]
    by (simp add: isAlphaNum_def del: closed_text.simps)
  have "os_ExpandEnv ex_environ (?home @ ''${SSH_PASSWORD}'' @ [])
      = os_ExpandEnv ex_environ ?home @ os_ExpandEnv ex_environ []"
    by (rule unset_ref [OF conjI [OF closed conjI [OF braces unset]]])
  then have e4: "os_ExpandEnv ex_environ ''home: ${HOME} password: ${SSH_PASSWORD}''
      = ''home: /root password: ''"
    unfolding e3 p6 by simp
  have "os_ExpandEnv (ex_environ(?name \<mapsto> [])) ''password: ${SSH_PASSWORD}''
      = os_ExpandEnv ex_environ ''password: ${SSH_PASSWORD}''"
    by (rule as_empty) (rule unset)
  then have e5: "os_ExpandEnv (ex_environ(?name \<mapsto> [])) ''password: ${SSH_PASSWORD}''
      = ''password: ''"
    unfolding e1 .
  have l0: "Load (ex_env_deps ''password: ${SSH_PASSWORD}'') ''missing.yaml''
      = Inl (ReadFailed ''no such file or directory'')"
    by (rule unreadable) (rule missing)
  have c1: "ReadFile (ex_env_deps ''password: ${SSH_PASSWORD}'') ''config.yaml''
      = Inr (?pre @ ''${SSH_PASSWORD}'' @ [])"
    using content [of "''password: ${SSH_PASSWORD}''"] by simp
  have "Load (ex_env_deps ''password: ${SSH_PASSWORD}'') ''config.yaml'' =
      (case yaml_Unmarshal (ex_env_deps ''password: ${SSH_PASSWORD}'')
             (os_ExpandEnv ex_environ ?pre @ os_ExpandEnv ex_environ []) of
         Inl err \<Rightarrow> Inl (ParseFailed err)
       | Inr cfg \<Rightarrow>
           (case Validate (ssh_Validate (ex_env_deps ''password: ${SSH_PASSWORD}'')) cfg of
              Some err \<Rightarrow> Inl (InvalidConfig err)
            | None \<Rightarrow> Inr cfg))"
    by (rule erased [OF conjI [OF c1 conjI [OF p1 conjI [OF braces unset]]]])
  then have l1: "Load (ex_env_deps ''password: ${SSH_PASSWORD}'') ''config.yaml''
     = Inl (InvalidConfig (SSHInvalid ''password or keyFile is required''))"
    unfolding p2 p6 append_Nil2 rejected .
  have "Load (ex_env_deps ''password: $SSH_PASSWORD'') ''config.yaml'' =
      (case yaml_Unmarshal (ex_env_deps ''password: $SSH_PASSWORD'')
             (os_ExpandEnv ex_environ ''password: $SSH_PASSWORD'') of
         Inl err \<Rightarrow> Inl (ParseFailed err)
       | Inr cfg \<Rightarrow>
           (case Validate (ssh_Validate (ex_env_deps ''password: $SSH_PASSWORD'')) cfg of
              Some err \<Rightarrow> Inl (InvalidConfig err)
            | None \<Rightarrow> Inr cfg))"
    by (rule readable) (rule content)
  then have l2: "Load (ex_env_deps ''password: $SSH_PASSWORD'') ''config.yaml''
     = Inl (InvalidConfig (SSHInvalid ''password or keyFile is required''))"
    unfolding e2 rejected .
  from unset home braces bare ref_home closed e1 e2 e3 e4 e5 l0 l1 l2 show ?thesis
    by blast
qed

text \<open>
  Claim C10 as stated fails in its last part: a variable that is not set can be rejected
  before the validation, by the YAML decoder. With \<open>IV\<close> set to 30 the document with the
  interval \<^verbatim>\<open>${IV}s\<close> is loaded; with \<open>IV\<close> not set the reference is erased,
  the interval reads \<^verbatim>\<open>s\<close>, and \<^verbatim>\<open>Load\<close> returns the decoder's error, not a
  validation error.
\<close>

theorem Load_unset_variable_counterexample:
  "ex_environ ''IV'' = None \<and>
   ex_environ_iv ''IV'' = Some ''30'' \<and>
   os_ExpandEnv ex_environ_iv (ex_interval_doc ''${IV}'') = ex_interval_doc ''30'' \<and>
   os_ExpandEnv ex_environ (ex_interval_doc ''${IV}'') = ex_interval_doc [] \<and>
   Load (ex_interval_deps ex_environ_iv) ''config.yaml'' = Inr ex_interval_config \<and>
   Load (ex_interval_deps ex_environ) ''config.yaml''
     = Inl (ParseFailed ''yaml: unmarshal errors: cannot unmarshal !!str s into time.Duration'')"
proof -
  have unset: "ex_environ ''IV'' = None"
    by (simp add: ex_environ_def)
  have is_set: "ex_environ_iv ''IV'' = Some ''30''"
    by (simp add: ex_environ_iv_def)
  have e1: "os_ExpandEnv ex_environ_iv (ex_interval_doc ''${IV}'') = ex_interval_doc ''30''"
    by (simp add: os_ExpandEnv_def ex_interval_doc_def Getenv_def ex_environ_iv_def
        isShellSpecialVar_def)
  have e2: "os_ExpandEnv ex_environ (ex_interval_doc ''${IV}'') = ex_interval_doc []"
    by (simp add: os_ExpandEnv_def ex_interval_doc_def Getenv_def ex_environ_def
        isShellSpecialVar_def)
  have differ: "ex_interval_doc [] \<noteq> ex_interval_doc ''30''"
    by (simp add: ex_interval_doc_def)
  have valid: "Validate ssh_Validate_model ex_interval_config = None"
    by (simp add: Validate_def ssh_Validate_model_def ex_interval_config_def ex_ssh_def)
  have l1: "Load (ex_interval_deps ex_environ_iv) ''config.yaml'' = Inr ex_interval_config"
    unfolding Load_def ex_interval_deps_def
    by (simp add: ex_ReadFile_def e1 ex_Unmarshal_interval_def valid)
  have l2: "Load (ex_interval_deps ex_environ) ''config.yaml''
     = Inl (ParseFailed ''yaml: unmarshal errors: cannot unmarshal !!str s into time.Duration'')"
    unfolding Load_def ex_interval_deps_def
    by (simp add: ex_ReadFile_def e2 ex_Unmarshal_interval_def differ)
  from unset is_set e1 e2 l1 l2 show ?thesis by blast
qed

end
